theory Spec2Isabelle
  imports Complex_Main
begin

section \<open>Data model\<close>

text \<open>
  The Python sources work on float64 and complex128 numbers. They are modelled here by
  the exact reals and complex numbers: rounding is outside this development, and every
  tolerance of the specification is met by an exact equality.
\<close>

datatype error = IndexError | KeyError | ValueError | ZeroDivisionError | AssertionError

type_synonym 'a result = "error + 'a"

text \<open>
  A networkx graph as the sources use it: the ordered node list (\<open>len(graph)\<close> is its
  length), and the edges in the order of \<open>graph.edges\<close>, each with its attribute
  dictionary. The attribute dictionary holds \<open>'weight'\<close> and, once the closed-form
  evaluator has run, \<open>'gamma'\<close>.
\<close>

record edge_attr =
  weight :: real
  gamma :: "real option"

record graph =
  nodes :: "nat list"
  edges :: "((nat \<times> nat) \<times> edge_attr) list"

section \<open>Generalized first-order evaluator (src/src/analytical.py)\<close>

text \<open>
  Modelled from the spec: \<open>get_index_edge_list\<close> of src/graph_utils.py, which is not
  among the sources. The nodes are the qubits \<open>0..n-1\<close>, so the index edge list is the
  list of the graph's edges as pairs of node indices, in the order of \<open>graph.edges\<close>.
\<close>

definition get_index_edge_list :: "graph \<Rightarrow> (nat \<times> nat) list" where
  "get_index_edge_list g = map fst (edges g)"

text \<open>
  The loop of \<open>calc_expectation_general_analytical_z1\<close>. \<open>angles[edge]\<close> reads the two
  entries at the edge's node indices, \<open>angles[edge + len(graph)]\<close> the two entries
  \<open>len(graph)\<close> further on; an index past the end raises IndexError.
\<close>

fun z1_loop :: "real list \<Rightarrow> nat \<Rightarrow> real \<Rightarrow> (nat \<times> nat) list \<Rightarrow> real result" where
  "z1_loop angles n expectation [] = Inr expectation"
| "z1_loop angles n expectation ((u, v) # rest) =
     (if u < length angles \<and> v < length angles
         \<and> u + n < length angles \<and> v + n < length angles
      then
        (let gammas0 = angles ! u; gammas1 = angles ! v;
             betas0 = angles ! (u + n); betas1 = angles ! (v + n)
         in z1_loop angles n
              (expectation
                 - sin (2 * betas0) * sin (2 * betas1) * sin (2 * gammas0) * sin (2 * gammas1) / 2)
              rest)
      else Inl IndexError)"

definition calc_expectation_general_analytical_z1 :: "real list \<Rightarrow> graph \<Rightarrow> real result" where
  "calc_expectation_general_analytical_z1 angles g =
     z1_loop angles (length (nodes g)) (real (length (edges g)) / 2) (get_index_edge_list g)"

definition calc_expectation_general_analytical_z1_reduced :: "real list \<Rightarrow> graph \<Rightarrow> real result" where
  "calc_expectation_general_analytical_z1_reduced angles g =
     (let full_angles = replicate (length (nodes g)) (pi / 4) @ angles
      in calc_expectation_general_analytical_z1 full_angles g)"

text \<open>The value the specification gives for the generalized evaluator.\<close>

definition z1_formula :: "real list \<Rightarrow> real list \<Rightarrow> graph \<Rightarrow> real" where
  "z1_formula gammas betas g =
     real (length (edges g)) / 2
       - (\<Sum>(u, v) \<leftarrow> get_index_edge_list g.
            sin (2 * betas ! u) * sin (2 * betas ! v)
              * sin (2 * gammas ! u) * sin (2 * gammas ! v) / 2)"

definition edges_in_range :: "graph \<Rightarrow> bool" where
  "edges_in_range g =
     list_all (\<lambda>(u, v). u < length (nodes g) \<and> v < length (nodes g)) (get_index_edge_list g)"

section \<open>Closed-form evaluator for p = 1 (src/qaoa_core.py, src/src/analytical.py)\<close>

text \<open>
  \<open>graph.edges[u, v]\<close>: the attribute dictionary of the edge joining \<open>u\<close> and \<open>v\<close>,
  found under either orientation of the undirected edge; KeyError when there is none.
\<close>

fun lookup_edge :: "((nat \<times> nat) \<times> edge_attr) list \<Rightarrow> nat \<Rightarrow> nat \<Rightarrow> edge_attr option" where
  "lookup_edge [] u v = None"
| "lookup_edge (((a, b), d) # es) u v =
     (if (a = u \<and> b = v) \<or> (a = v \<and> b = u) then Some d else lookup_edge es u v)"

definition edge_weight :: "graph \<Rightarrow> nat \<Rightarrow> nat \<Rightarrow> real result" where
  "edge_weight g u v =
     (case lookup_edge (edges g) u v of None \<Rightarrow> Inl KeyError | Some d \<Rightarrow> Inr (weight d))"

definition edge_gamma :: "graph \<Rightarrow> nat \<Rightarrow> nat \<Rightarrow> real result" where
  "edge_gamma g u v =
     (case lookup_edge (edges g) u v of
        None \<Rightarrow> Inl KeyError
      | Some d \<Rightarrow> (case gamma d of None \<Rightarrow> Inl KeyError | Some x \<Rightarrow> Inr x))"

text \<open>\<open>graph[u]\<close>: the nodes adjacent to \<open>u\<close>, each once.\<close>

definition adj :: "graph \<Rightarrow> nat \<Rightarrow> nat list" where
  "adj g u =
     remdups (concat (map (\<lambda>((a, b), d). (if a = u then [b] else []) @ (if b = u then [a] else []))
                          (edges g)))"

text \<open>
  \<open>nx.set_edge_attributes(graph, {(u, v): gammas[i] * w for i, (u, v, w) in
  enumerate(graph.edges.data('weight'))}, name='gamma')\<close>: the \<open>i\<close>-th edge's attribute
  \<open>'gamma'\<close> becomes \<open>gammas[i]\<close> times its weight. The caller has checked that
  \<open>gammas\<close> has an entry for every edge.
\<close>

definition set_edge_attributes_gamma :: "real list \<Rightarrow> graph \<Rightarrow> graph" where
  "set_edge_attributes_gamma gammas g =
     g\<lparr>edges := map (\<lambda>(i, (e, d)). (e, d\<lparr>gamma := Some (gammas ! i * weight d)\<rparr>))
                     (enumerate 0 (edges g))\<rparr>"

text \<open>A list of results is a result: the first error, or all the values.\<close>

fun collect :: "'a result list \<Rightarrow> 'a list result" where
  "collect [] = Inr []"
| "collect (Inl e # xs) = Inl e"
| "collect (Inr a # xs) = (case collect xs of Inl e \<Rightarrow> Inl e | Inr as \<Rightarrow> Inr (a # as))"

text \<open>
  One pass of the loop over \<open>edge_list\<close>: the contribution \<open>cuv\<close> of the edge
  \<open>(u, v)\<close>. The sets \<open>d\<close>, \<open>e\<close>, \<open>f\<close> are lists without repetition; the products over
  them do not depend on the order. \<open>betas[u]\<close> past the end raises IndexError.
\<close>

definition edge_contribution :: "graph \<Rightarrow> real list \<Rightarrow> nat \<Rightarrow> nat \<Rightarrow> real result" where
  "edge_contribution g betas u v =
     (case edge_weight g u v of
        Inl err \<Rightarrow> Inl err
      | Inr w \<Rightarrow>
         (let d = removeAll v (adj g u);
              e = removeAll u (adj g v);
              f = filter (\<lambda>m. m \<in> set e) d;
              d_minus_f = filter (\<lambda>m. m \<notin> set f) d;
              e_minus_f = filter (\<lambda>m. m \<notin> set f) e
          in case (collect (map (edge_gamma g u) d_minus_f),
                   collect (map (edge_gamma g v) e_minus_f),
                   collect (map (edge_gamma g u) f),
                   collect (map (edge_gamma g v) f),
                   edge_gamma g u v) of
               (Inr gd, Inr ge, Inr gfu, Inr gfv, Inr guv) \<Rightarrow>
                 if u < length betas \<and> v < length betas then
                   (let cuv0 = w / 2;
                        cos_prod_d0 = prod_list (map cos gd);
                        cos_prod_e0 = prod_list (map cos ge);
                        cos_prod_f_plus = prod_list (map (\<lambda>(x, y). cos (x + y)) (zip gfu gfv));
                        cos_prod_f_minus = prod_list (map (\<lambda>(x, y). cos (x - y)) (zip gfu gfv));
                        cuv1 = (if length f \<noteq> 0
                                then cuv0 + w / 4 * sin (2 * betas ! u) * sin (2 * betas ! v)
                                              * cos_prod_d0 * cos_prod_e0
                                              * (cos_prod_f_plus - cos_prod_f_minus)
                                else cuv0);
                        cos_prod_d = (if length f \<noteq> 0
                                      then cos_prod_d0 * prod_list (map cos gfu) else cos_prod_d0);
                        cos_prod_e = (if length f \<noteq> 0
                                      then cos_prod_e0 * prod_list (map cos gfv) else cos_prod_e0)
                    in Inr (cuv1 + w / 2 * sin guv
                              * (sin (2 * betas ! u) * cos (2 * betas ! v) * cos_prod_d
                                 + cos (2 * betas ! u) * sin (2 * betas ! v) * cos_prod_e)))
                 else Inl IndexError
             | _ \<Rightarrow> Inl KeyError))"

fun analytical_loop :: "graph \<Rightarrow> real list \<Rightarrow> real \<Rightarrow> (nat \<times> nat) list \<Rightarrow> real result" where
  "analytical_loop g betas objective [] = Inr objective"
| "analytical_loop g betas objective ((u, v) # rest) =
     (case edge_contribution g betas u v of
        Inl err \<Rightarrow> Inl err
      | Inr cuv \<Rightarrow> analytical_loop g betas (objective + cuv) rest)"

text \<open>
  \<open>run_ma_qaoa_analytical_p1\<close> returns the objective and leaves the graph object as the
  call to \<open>nx.set_edge_attributes\<close> made it; both are results of the model. The dictionary
  of scaled gammas is built before the graph is touched, so a \<open>gammas\<close> vector shorter
  than the edge list raises IndexError on the untouched graph.
\<close>

definition run_ma_qaoa_analytical_p1 ::
  "real list \<Rightarrow> graph \<Rightarrow> (nat \<times> nat) list option \<Rightarrow> real result \<times> graph" where
  "run_ma_qaoa_analytical_p1 angles g edge_list =
     (let edge_list1 = (case edge_list of None \<Rightarrow> map fst (edges g) | Some el \<Rightarrow> el);
          gammas = take (length (edges g)) angles;
          betas = drop (length (edges g)) angles
      in if length gammas < length (edges g) then (Inl IndexError, g)
         else (let g1 = set_edge_attributes_gamma gammas g
               in (analytical_loop g1 betas 0 edge_list1, g1)))"

text \<open>
  \<open>calc_expectation_ma_qaoa_analytical_p1\<close> of src/src/analytical.py has, line for line,
  the body of \<open>run_ma_qaoa_analytical_p1\<close> of src/qaoa_core.py.
\<close>

definition calc_expectation_ma_qaoa_analytical_p1 ::
  "real list \<Rightarrow> graph \<Rightarrow> (nat \<times> nat) list option \<Rightarrow> real result \<times> graph" where
  "calc_expectation_ma_qaoa_analytical_p1 angles g edge_list =
     run_ma_qaoa_analytical_p1 angles g edge_list"

section \<open>Angle layout converter (src/qaoa_core.py)\<close>

fun convert_angles_qaoa_to_multi_angle :: "real list \<Rightarrow> nat \<Rightarrow> nat \<Rightarrow> real list" where
  "convert_angles_qaoa_to_multi_angle (gamma_l # beta_l # rest) num_edges num_nodes =
     replicate num_edges gamma_l @ replicate num_nodes beta_l
       @ convert_angles_qaoa_to_multi_angle rest num_edges num_nodes"
| "convert_angles_qaoa_to_multi_angle _ num_edges num_nodes = []"

definition run_qaoa_analytical_p1 ::
  "real list \<Rightarrow> graph \<Rightarrow> (nat \<times> nat) list option \<Rightarrow> real result \<times> graph" where
  "run_qaoa_analytical_p1 angles g edge_list =
     (let angles_maqaoa =
            convert_angles_qaoa_to_multi_angle angles (length (edges g)) (length (nodes g))
      in run_ma_qaoa_analytical_p1 angles_maqaoa g edge_list)"

section \<open>State evolution engine (src/qaoa_core.py)\<close>

text \<open>
  A two-dimensional array is the list of its rows, as \<open>np.array\<close> builds it from nested
  lists: \<open>shape[0]\<close> is the number of rows, \<open>shape[1]\<close> the length of a row, and an
  array without rows has no second dimension (\<open>np.array([])\<close> has shape \<open>(0,)\<close>, so
  \<open>shape[1]\<close> raises IndexError). \<open>a[:, i]\<close> is the \<open>i\<close>-th column. Labels, bit values
  and indices are natural numbers.
\<close>

definition shape1 :: "'a list list \<Rightarrow> nat result" where
  "shape1 a = (case a of [] \<Rightarrow> Inl IndexError | r # _ \<Rightarrow> Inr (length r))"

definition column :: "'a list list \<Rightarrow> nat \<Rightarrow> 'a list" where
  "column a i = map (\<lambda>r. r ! i) a"

text \<open>
  \<open>apply_uc\<close>: \<open>math.prod\<close> multiplies the arrays \<open>exp(-1j * gammas[i] *
  all_cuv_vals[i, :])\<close> entry by entry, and the product multiplies \<open>psi\<close> entry by
  entry; the model computes the same entry at each basis label. A row \<open>i\<close> that the
  table does not have raises IndexError, rows of another length than \<open>psi\<close> do not
  broadcast (ValueError).
\<close>

definition apply_uc :: "real list list \<Rightarrow> real list \<Rightarrow> complex list \<Rightarrow> complex list result" where
  "apply_uc all_cuv_vals gammas psi =
     (if length all_cuv_vals < length gammas then Inl IndexError
      else if \<not> list_all (\<lambda>i. length (all_cuv_vals ! i) = length psi) [0..<length gammas]
      then Inl ValueError
      else Inr (map (\<lambda>l. (\<Prod>i \<leftarrow> [0..<length gammas].
                              exp (- \<i> * complex_of_real (gammas ! i)
                                      * complex_of_real (all_cuv_vals ! i ! l)))
                          * psi ! l)
                    [0..<length psi]))"

definition get_exp_x :: "real \<Rightarrow> complex list list" where
  "get_exp_x beta =
     [[complex_of_real (cos beta), - \<i> * complex_of_real (sin beta)],
      [- \<i> * complex_of_real (sin beta), complex_of_real (cos beta)]]"

text \<open>
  The loop of \<open>apply_unitary_one_qubit\<close> over \<open>i in range(len(psi))\<close>, on the
  accumulator \<open>res\<close>. A table shorter than \<open>psi\<close>, a bit value other than 0 and 1 and a
  neighbour label outside \<open>res\<close> are index errors. This function and the two around it
  are compiled by numba, which by default leaves an index out of range unchecked; the
  model follows Python, where it raises IndexError.
\<close>

fun one_qubit_loop ::
  "complex list list \<Rightarrow> complex list \<Rightarrow> nat list \<Rightarrow> nat list \<Rightarrow> complex list \<Rightarrow> nat list
     \<Rightarrow> complex list result" where
  "one_qubit_loop unitary psi target_neighbours target_vals res [] = Inr res"
| "one_qubit_loop unitary psi target_neighbours target_vals res (i # rest) =
     (if length target_vals \<le> i \<or> length target_neighbours \<le> i then Inl IndexError
      else if 2 \<le> target_vals ! i then Inl IndexError
      else
        (let t = target_vals ! i;
             res1 = res[i := res ! i + psi ! i * unitary ! t ! t]
         in if length res1 \<le> target_neighbours ! i then Inl IndexError
            else one_qubit_loop unitary psi target_neighbours target_vals
                   (res1[target_neighbours ! i :=
                           res1 ! (target_neighbours ! i) + psi ! i * unitary ! (1 - t) ! t])
                   rest))"

definition apply_unitary_one_qubit ::
  "complex list list \<Rightarrow> complex list \<Rightarrow> nat list \<Rightarrow> nat list \<Rightarrow> complex list result" where
  "apply_unitary_one_qubit unitary psi target_neighbours target_vals =
     one_qubit_loop unitary psi target_neighbours target_vals
       (replicate (length psi) 0) [0..<length psi]"

text \<open>
  The loop of \<open>apply_ub_individual\<close> over the qubits. Reading \<open>betas[i]\<close> or the column
  \<open>basis_bin[:, i]\<close> past the end is an IndexError, as Python's indexing has it.
\<close>

fun ub_loop ::
  "real list \<Rightarrow> nat list list \<Rightarrow> nat list list \<Rightarrow> complex list \<Rightarrow> nat list \<Rightarrow> complex list result" where
  "ub_loop betas neighbours basis_bin res [] = Inr res"
| "ub_loop betas neighbours basis_bin res (i # rest) =
     (if length betas \<le> i then Inl IndexError
      else if basis_bin = [] \<or> \<not> list_all (\<lambda>r. i < length r) basis_bin then Inl IndexError
      else
        (let exp_x = get_exp_x (betas ! i)
         in case apply_unitary_one_qubit exp_x res (column neighbours i) (column basis_bin i) of
              Inl err \<Rightarrow> Inl err
            | Inr res1 \<Rightarrow> ub_loop betas neighbours basis_bin res1 rest))"

definition apply_ub_individual ::
  "real list \<Rightarrow> complex list \<Rightarrow> nat list list \<Rightarrow> nat list list \<Rightarrow> complex list result" where
  "apply_ub_individual betas psi neighbours basis_bin =
     (case shape1 neighbours of
        Inl err \<Rightarrow> Inl err
      | Inr num_qubits \<Rightarrow> ub_loop betas neighbours basis_bin psi [0..<num_qubits])"

text \<open>
  \<open>calc_expectation_diagonal\<close>: the real part of \<open>vdot(psi, diagonal_vals * psi)\<close>, the
  sum of \<open>conj(psi[l]) * (diagonal_vals[l] * psi[l])\<close>.
\<close>

definition calc_expectation_diagonal :: "complex list \<Rightarrow> real list \<Rightarrow> real result" where
  "calc_expectation_diagonal psi diagonal_vals =
     (if length diagonal_vals \<noteq> length psi then Inl ValueError
      else Inr (Re (\<Sum>l \<leftarrow> [0..<length psi].
                      cnj (psi ! l) * (complex_of_real (diagonal_vals ! l) * psi ! l))))"

text \<open>
  The loop of \<open>run_ma_qaoa_simulation\<close> over the layers: layer \<open>i\<close> reads the slice
  \<open>angles[i * k:(i + 1) * k]\<close>, its first \<open>shape[0]\<close> entries as gammas and the rest as
  betas.
\<close>

fun layers_loop ::
  "real list \<Rightarrow> nat \<Rightarrow> real list list \<Rightarrow> nat list list \<Rightarrow> nat list list \<Rightarrow> complex list
     \<Rightarrow> nat list \<Rightarrow> complex list result" where
  "layers_loop angles num_angles_per_layer all_cuv_vals neighbours basis_bin psi [] = Inr psi"
| "layers_loop angles num_angles_per_layer all_cuv_vals neighbours basis_bin psi (i # rest) =
     (let layer_angles = take num_angles_per_layer (drop (i * num_angles_per_layer) angles);
          gammas = take (length all_cuv_vals) layer_angles
      in case apply_uc all_cuv_vals gammas psi of
           Inl err \<Rightarrow> Inl err
         | Inr psi1 \<Rightarrow>
            (let betas = drop (length all_cuv_vals) layer_angles
             in case apply_ub_individual betas psi1 neighbours basis_bin of
                  Inl err \<Rightarrow> Inl err
                | Inr psi2 \<Rightarrow>
                    layers_loop angles num_angles_per_layer all_cuv_vals neighbours basis_bin
                      psi2 rest))"

text \<open>The uniform superposition \<open>np.ones(N) / np.sqrt(N)\<close>.\<close>

definition uniform_state :: "nat \<Rightarrow> complex list" where
  "uniform_state N = replicate N (1 / complex_of_real (sqrt (real N)))"

text \<open>
  \<open>np.sum(all_cuv_vals[edge_inds, :], 0)\<close>: the sum of the chosen rows, label by label;
  a row index outside the table raises IndexError.
\<close>

definition sum_rows :: "real list list \<Rightarrow> nat list \<Rightarrow> nat \<Rightarrow> real list result" where
  "sum_rows all_cuv_vals edge_inds N =
     (if \<not> list_all (\<lambda>e. e < length all_cuv_vals) edge_inds then Inl IndexError
      else Inr (map (\<lambda>l. \<Sum>e \<leftarrow> edge_inds. all_cuv_vals ! e ! l) [0..<N]))"

text \<open>
  \<open>run_ma_qaoa_simulation\<close>. The number of layers \<open>p\<close> is a Python integer:
  \<open>len(angles) / p\<close> raises ZeroDivisionError at \<open>p = 0\<close>, and \<open>range(p)\<close> is empty for
  a negative \<open>p\<close>. For a positive \<open>p\<close> the integer part of the quotient is the integer
  division.
\<close>

definition run_ma_qaoa_simulation ::
  "real list \<Rightarrow> int \<Rightarrow> real list list \<Rightarrow> nat list list \<Rightarrow> nat list list \<Rightarrow> nat list option
     \<Rightarrow> real result" where
  "run_ma_qaoa_simulation angles p all_cuv_vals neighbours basis_bin edge_inds =
     (let edge_inds1 = (case edge_inds of None \<Rightarrow> [0..<length all_cuv_vals] | Some ei \<Rightarrow> ei)
      in case shape1 all_cuv_vals of
           Inl err \<Rightarrow> Inl err
         | Inr N \<Rightarrow>
            (let psi = uniform_state N
             in if p = 0 then Inl ZeroDivisionError
                else
                  (let num_angles_per_layer = length angles div nat p
                   in case layers_loop angles num_angles_per_layer all_cuv_vals neighbours
                             basis_bin psi [0..<nat p] of
                        Inl err \<Rightarrow> Inl err
                      | Inr psi1 \<Rightarrow>
                         (case sum_rows all_cuv_vals edge_inds1 N of
                            Inl err \<Rightarrow> Inl err
                          | Inr diagonal_vals \<Rightarrow> calc_expectation_diagonal psi1 diagonal_vals))))"

definition run_qaoa_simulation ::
  "real list \<Rightarrow> int \<Rightarrow> real list list \<Rightarrow> nat list list \<Rightarrow> nat list list \<Rightarrow> nat list option
     \<Rightarrow> real result" where
  "run_qaoa_simulation angles p all_cuv_vals neighbours basis_bin edge_inds =
     (case shape1 neighbours of
        Inl err \<Rightarrow> Inl err
      | Inr num_qubits \<Rightarrow>
         (let angles_maqaoa =
                convert_angles_qaoa_to_multi_angle angles (length all_cuv_vals) num_qubits
          in run_ma_qaoa_simulation angles_maqaoa p all_cuv_vals neighbours basis_bin edge_inds))"

section \<open>Basis index provider\<close>

text \<open>
  Modelled from the spec: \<open>get_all_binary_labelings\<close>, \<open>get_neighbour_labelings\<close> and
  \<open>check_edge_cut\<close> of the module \<open>preprocessing\<close>, which is not among the sources.
  The bit-value table gives each qubit's value in each basis label, the neighbour table
  the label with that qubit's bit flipped, and \<open>check_edge_cut(labeling, u, v)\<close> the
  cut indicator of the edge \<open>(u, v)\<close> at a labeling: 1 when the two bits differ, else 0.
  Qubit \<open>q\<close> is taken to be the binary digit of weight \<open>2 ^ q\<close>; the spec does not fix
  the order of the digits.
\<close>

definition get_all_binary_labelings :: "nat \<Rightarrow> nat list list" where
  "get_all_binary_labelings n =
     map (\<lambda>l. map (\<lambda>q. (l div 2 ^ q) mod 2) [0..<n]) [0..<2 ^ n]"

definition get_neighbour_labelings :: "nat \<Rightarrow> nat list list" where
  "get_neighbour_labelings n =
     map (\<lambda>l. map (\<lambda>q. if (l div 2 ^ q) mod 2 = 0 then l + 2 ^ q else l - 2 ^ q) [0..<n])
         [0..<2 ^ n]"

definition check_edge_cut :: "nat list \<Rightarrow> nat \<Rightarrow> nat \<Rightarrow> real result" where
  "check_edge_cut labeling u v =
     (if u < length labeling \<and> v < length labeling
      then Inr (if labeling ! u \<noteq> labeling ! v then 1 else 0)
      else Inl IndexError)"

section \<open>Optimization drivers\<close>

text \<open>
  \<open>scipy.optimize.minimize\<close> and \<open>np.random.uniform\<close> are outside the repository and
  are parameters of the model. An objective maps an angle vector to a number or raises.
  The minimizer maps an objective and a start vector to an \<open>OptimizeResult\<close>, of which
  the drivers read \<open>fun\<close> and \<open>x\<close>, or passes on what the objective raised. The random
  source gives, for the \<open>k\<close>-th call of \<open>np.random.uniform(-pi, pi, size)\<close> of the run,
  the vector it returns; the number of calls made so far is the state of the generator,
  which the drivers take and return.
\<close>

record opt_result =
  res_fun :: real
  res_x :: "real list"

type_synonym objective = "real list \<Rightarrow> real result"

type_synonym minimizer = "objective \<Rightarrow> real list \<Rightarrow> opt_result result"

type_synonym uniform_source = "nat \<Rightarrow> nat \<Rightarrow> real list"

definition change_sign :: "objective \<Rightarrow> objective" where
  "change_sign f = (\<lambda>args. case f args of Inl err \<Rightarrow> Inl err | Inr y \<Rightarrow> Inr (- y))"

subsection \<open>The driver of src/qaoa_core.py\<close>

text \<open>
  The loop over \<open>opt_ind in range(optimization_attempts)\<close>, on the state
  \<open>(objective_best, angles_best)\<close> and the generator state.
\<close>

fun attempts_loop ::
  "minimizer \<Rightarrow> uniform_source \<Rightarrow> objective \<Rightarrow> real \<Rightarrow> nat \<Rightarrow> real \<times> real list \<times> nat
     \<Rightarrow> (real \<times> real list \<times> nat) result" where
  "attempts_loop minimize uniform f objective_max 0 s = Inr s"
| "attempts_loop minimize uniform f objective_max (Suc k) (objective_best, angles_best, calls) =
     (if objective_max - objective_best < 1 / 1000 then Inr (objective_best, angles_best, calls)
      else
        (let next_angles = uniform calls (length angles_best)
         in case minimize f next_angles of
              Inl err \<Rightarrow> Inl err
            | Inr result \<Rightarrow>
                if - res_fun result > objective_best
                then attempts_loop minimize uniform f objective_max k
                       (- res_fun result, map (\<lambda>a. a / pi) next_angles, Suc calls)
                else attempts_loop minimize uniform f objective_max k
                       (objective_best, angles_best, Suc calls)))"

text \<open>\<open>all_edge_list.index(edge)\<close>: the position of the first equal pair, or ValueError.\<close>

fun list_index :: "'a list \<Rightarrow> 'a \<Rightarrow> nat result" where
  "list_index [] y = Inl ValueError"
| "list_index (x # xs) y =
     (if x = y then Inr 0
      else case list_index xs y of Inl err \<Rightarrow> Inl err | Inr i \<Rightarrow> Inr (Suc i))"

text \<open>
  The preprocessing block: the tables of the simulation and the indices of the chosen
  edges. The term table has one row per edge of the graph, the values of
  \<open>check_edge_cut(labeling, u, v)\<close> over all labelings.
\<close>

definition preprocessing ::
  "graph \<Rightarrow> (nat \<times> nat) list option
     \<Rightarrow> (real list list \<times> nat list list \<times> nat list list \<times> nat list option) result" where
  "preprocessing g edge_list =
     (let neighbours = get_neighbour_labelings (length (nodes g));
          all_labelings = get_all_binary_labelings (length (nodes g))
      in case collect (map (\<lambda>(u, v). collect (map (\<lambda>labeling. check_edge_cut labeling u v)
                                                    all_labelings))
                           (map fst (edges g))) of
           Inl err \<Rightarrow> Inl err
         | Inr all_cuv_vals \<Rightarrow>
            (let all_edge_list = map fst (edges g)
             in case edge_list of
                  None \<Rightarrow> Inr (all_cuv_vals, neighbours, all_labelings, None)
                | Some el \<Rightarrow>
                   (case collect (map (list_index all_edge_list) el) of
                      Inl err \<Rightarrow> Inl err
                    | Inr edge_inds \<Rightarrow>
                        Inr (all_cuv_vals, neighbours, all_labelings, Some edge_inds))))"

text \<open>
  The objective handed to the minimizer, by the two flags. The closed-form evaluators
  are called for their value; the graph object they annotate is the driver's own.
\<close>

definition core_objective ::
  "bool \<Rightarrow> bool \<Rightarrow> int \<Rightarrow> graph \<Rightarrow> (nat \<times> nat) list option
     \<Rightarrow> real list list \<times> nat list list \<times> nat list list \<times> nat list option \<Rightarrow> objective" where
  "core_objective multi_angle use_analytical p g edge_list tables =
     (case tables of (all_cuv_vals, neighbours, all_labelings, edge_inds) \<Rightarrow>
        if use_analytical then
          (if multi_angle
           then change_sign (\<lambda>angles. fst (run_ma_qaoa_analytical_p1 angles g edge_list))
           else change_sign (\<lambda>angles. fst (run_qaoa_analytical_p1 angles g edge_list)))
        else
          (if multi_angle
           then change_sign (\<lambda>angles. run_ma_qaoa_simulation angles p all_cuv_vals neighbours
                                         all_labelings edge_inds)
           else change_sign (\<lambda>angles. run_qaoa_simulation angles p all_cuv_vals neighbours
                                         all_labelings edge_inds)))"

text \<open>
  \<open>optimize_qaoa_angles\<close> of src/qaoa_core.py. It returns \<open>objective_best\<close>; the model
  returns the generator state with it. The assertion comes before everything else;
  \<open>np.zeros\<close> of a negative length raises ValueError.
\<close>

definition optimize_qaoa_angles_core ::
  "minimizer \<Rightarrow> uniform_source \<Rightarrow> bool \<Rightarrow> bool \<Rightarrow> int \<Rightarrow> graph \<Rightarrow> (nat \<times> nat) list option
     \<Rightarrow> nat \<Rightarrow> (real \<times> nat) result" where
  "optimize_qaoa_angles_core minimize uniform multi_angle use_analytical p g edge_list calls =
     (let optimization_attempts = 10
      in if \<not> (\<not> use_analytical \<or> p = 1) then Inl AssertionError
         else
           (case (if \<not> use_analytical then preprocessing g edge_list
                  else Inr ([], [], [], None)) of
              Inl err \<Rightarrow> Inl err
            | Inr tables \<Rightarrow>
               (let num_angles_per_layer =
                      (if multi_angle then length (edges g) + length (nodes g) else 2)
                in if p < 0 \<and> num_angles_per_layer \<noteq> 0 then Inl ValueError
                   else
                     (let angles_best = replicate (num_angles_per_layer * nat p) (0 :: real);
                          objective_max = (\<Sum>(e, d) \<leftarrow> edges g. weight d);
                          objective_best = 0
                      in case attempts_loop minimize uniform
                                (core_objective multi_angle use_analytical p g edge_list tables)
                                objective_max optimization_attempts
                                (objective_best, angles_best, calls) of
                           Inl err \<Rightarrow> Inl err
                         | Inr (objective_best1, angles_best1, calls1) \<Rightarrow>
                             Inr (objective_best1, calls1)))))"

subsection \<open>The evaluators and the driver of src/src/optimization.py\<close>

record evaluator =
  func :: objective
  num_angles :: nat

text \<open>
  Modelled from the spec: \<open>qaoa_decorator\<close> of src/original_qaoa.py, which is not among
  the sources. It is the angle layout converter in front of an evaluator: the standard
  vector of two angles per layer is expanded by repetition and handed on.
\<close>

definition qaoa_decorator :: "objective \<Rightarrow> nat \<Rightarrow> nat \<Rightarrow> objective" where
  "qaoa_decorator f num_terms num_qubits =
     (\<lambda>angles. f (convert_angles_qaoa_to_multi_angle angles num_terms num_qubits))"

definition get_evaluator_standard_maxcut_analytical ::
  "graph \<Rightarrow> (nat \<times> nat) list option \<Rightarrow> bool \<Rightarrow> evaluator" where
  "get_evaluator_standard_maxcut_analytical g edge_list use_multi_angle =
     (let f = (\<lambda>angles. fst (calc_expectation_ma_qaoa_analytical_p1 angles g edge_list))
      in if use_multi_angle
         then \<lparr>func = change_sign f, num_angles = length (edges g) + length (nodes g)\<rparr>
         else \<lparr>func = change_sign (qaoa_decorator f (length (edges g)) (length (nodes g))),
               num_angles = 2\<rparr>)"

text \<open>The loop over \<open>i in range(num_restarts)\<close> of \<open>optimize_qaoa_angles\<close>.\<close>

fun restarts_loop ::
  "minimizer \<Rightarrow> uniform_source \<Rightarrow> objective \<Rightarrow> nat \<Rightarrow> real \<times> real list \<times> nat
     \<Rightarrow> (real \<times> real list \<times> nat) result" where
  "restarts_loop minimize uniform f 0 s = Inr s"
| "restarts_loop minimize uniform f (Suc k) (objective_best, angles_best, calls) =
     (let next_angles = uniform calls (length angles_best)
      in case minimize f next_angles of
           Inl err \<Rightarrow> Inl err
         | Inr result \<Rightarrow>
             if - res_fun result > objective_best
             then restarts_loop minimize uniform f k (- res_fun result, res_x result, Suc calls)
             else restarts_loop minimize uniform f k (objective_best, angles_best, Suc calls))"

text \<open>
  \<open>optimize_qaoa_angles\<close> of src/src/optimization.py returns the pair
  \<open>(objective_best, angles_best)\<close>; the model returns the generator state with it.
\<close>

definition optimize_qaoa_angles ::
  "minimizer \<Rightarrow> uniform_source \<Rightarrow> evaluator \<Rightarrow> nat \<Rightarrow> nat \<Rightarrow> ((real \<times> real list) \<times> nat) result" where
  "optimize_qaoa_angles minimize uniform ev num_restarts calls =
     (let angles_best = replicate (num_angles ev) (0 :: real);
          objective_best = 0
      in case restarts_loop minimize uniform (func ev) num_restarts
                (objective_best, angles_best, calls) of
           Inl err \<Rightarrow> Inl err
         | Inr (objective_best1, angles_best1, calls1) \<Rightarrow>
             Inr ((objective_best1, angles_best1), calls1))"

section \<open>Well-formed tables and the norm of a state\<close>

text \<open>
  The Euclidean norm of a state vector. A column of the neighbour table is valid for
  \<open>N\<close> labels when it maps labels to labels and flipping twice gives the label back; a
  column of the bit-value table when its entries are bits. The tables of an \<open>n\<close>-qubit
  problem with \<open>N\<close> labels have \<open>N\<close> rows of \<open>n\<close> entries and valid columns.
\<close>

definition norm_sq :: "complex list \<Rightarrow> real" where
  "norm_sq psi = (\<Sum>z \<leftarrow> psi. (cmod z)\<^sup>2)"

definition vec_norm :: "complex list \<Rightarrow> real" where
  "vec_norm psi = sqrt (norm_sq psi)"

definition valid_flip :: "nat \<Rightarrow> nat list \<Rightarrow> bool" where
  "valid_flip N tn =
     (length tn = N \<and> list_all (\<lambda>l. tn ! l < N \<and> tn ! (tn ! l) = l) [0..<N])"

definition valid_bits :: "nat \<Rightarrow> nat list \<Rightarrow> bool" where
  "valid_bits N tv = (length tv = N \<and> list_all (\<lambda>b. b < 2) tv)"

definition valid_tables :: "nat \<Rightarrow> nat \<Rightarrow> nat list list \<Rightarrow> nat list list \<Rightarrow> bool" where
  "valid_tables N n neighbours basis_bin =
     (0 < N \<and> length neighbours = N \<and> length basis_bin = N
      \<and> list_all (\<lambda>r. length r = n) neighbours \<and> list_all (\<lambda>r. length r = n) basis_bin
      \<and> list_all (\<lambda>q. valid_flip N (column neighbours q) \<and> valid_bits N (column basis_bin q))
                  [0..<n])"

text \<open>
  The bit-value table is consistent with the neighbour table when flipping qubit \<open>q\<close>
  changes the value of column \<open>q\<close> from \<open>v\<close> to \<open>1 - v\<close> and no other column.
\<close>

definition consistent_tables :: "nat \<Rightarrow> nat \<Rightarrow> nat list list \<Rightarrow> nat list list \<Rightarrow> bool" where
  "consistent_tables N n neighbours basis_bin =
     list_all (\<lambda>l. list_all (\<lambda>q. list_all (\<lambda>r.
              basis_bin ! (neighbours ! l ! q) ! r
                = (if r = q then 1 - basis_bin ! l ! r else basis_bin ! l ! r))
            [0..<n]) [0..<n]) [0..<N]"

text \<open>
  The term table of a problem with \<open>N\<close> labels: at least one row, every row of \<open>N\<close>
  entries.
\<close>

definition valid_terms :: "nat \<Rightarrow> real list list \<Rightarrow> bool" where
  "valid_terms N all_cuv_vals = (all_cuv_vals \<noteq> [] \<and> list_all (\<lambda>r. length r = N) all_cuv_vals)"

text \<open>
  The single-qubit rotation \<open>exp(-i beta X)\<close> on the qubit whose neighbour column is
  \<open>tn\<close>, entry by entry: \<open>cos(beta) psi[l] - i sin(beta) psi[tn[l]]\<close>.
\<close>

definition rotation :: "real \<Rightarrow> nat list \<Rightarrow> complex list \<Rightarrow> complex list" where
  "rotation beta tn psi =
     map (\<lambda>l. complex_of_real (cos beta) * psi ! l
               + (- \<i> * complex_of_real (sin beta)) * psi ! (tn ! l))
         [0..<length psi]"

text \<open>The mixer layer as the composition of the rotations of the qubits \<open>qs\<close>, in order.\<close>

definition mixer :: "real list \<Rightarrow> nat list list \<Rightarrow> complex list \<Rightarrow> nat list \<Rightarrow> complex list" where
  "mixer betas neighbours psi qs =
     foldl (\<lambda>phi q. rotation (betas ! q) (column neighbours q) phi) psi qs"

text \<open>
  The angle vector cut down to what the simulation reads: of each of the \<open>p\<close> layers'
  shares of \<open>k\<close> angles, the \<open>m\<close> leading ones.
\<close>

definition used_angles :: "real list \<Rightarrow> nat \<Rightarrow> nat \<Rightarrow> nat \<Rightarrow> real list" where
  "used_angles angles k m p = concat (map (\<lambda>i. take m (drop (i * k) angles)) [0..<p])"

section \<open>Concrete inputs\<close>

text \<open>The tables of the two-qubit problem of one edge, as the preprocessing builds them.\<close>

definition cuv_2 :: "real list list" where
  "cuv_2 = [[0, 1, 1, 0]]"

definition neighbours_2 :: "nat list list" where
  "neighbours_2 = [[1, 2], [0, 3], [3, 0], [2, 1]]"

definition basis_bin_2 :: "nat list list" where
  "basis_bin_2 = [[0, 0], [1, 0], [0, 1], [1, 1]]"

text \<open>The graph of two nodes joined by one edge of weight \<open>w\<close>.\<close>

definition single_edge :: "real \<Rightarrow> graph" where
  "single_edge w = \<lparr>nodes = [0, 1], edges = [((0, 1), \<lparr>weight = w, gamma = None\<rparr>)]\<rparr>"

text \<open>The same graph once the closed-form evaluator has stored the scaled gamma \<open>x\<close>.\<close>

definition annotated_edge :: "real \<Rightarrow> real \<Rightarrow> graph" where
  "annotated_edge w x = \<lparr>nodes = [0, 1], edges = [((0, 1), \<lparr>weight = w, gamma = Some x\<rparr>)]\<rparr>"

text \<open>A random source whose every draw is the zero vector of the requested size.\<close>

definition zero_source :: uniform_source where
  "zero_source k m = replicate m 0"

text \<open>
  A minimizer that answers with the point \<open>xstar\<close> and the objective there when the start
  vector has the size of \<open>xstar\<close>, and with the start vector itself otherwise.
\<close>

definition target_minimizer :: "real list \<Rightarrow> minimizer" where
  "target_minimizer xstar f x0 =
     (let x = (if length x0 = length xstar then xstar else x0)
      in case f x of Inl err \<Rightarrow> Inl err | Inr y \<Rightarrow> Inr \<lparr>res_fun = y, res_x = x\<rparr>)"

section \<open>What the specification asks of the optimization driver\<close>

text \<open>
  The outcomes of the first \<open>k\<close> restarts when every start vector has \<open>n\<close> entries, the
  best objective among them and an initial value \<open>ob\<close>, and the angle vector to return
  with it: the minimizing vector of the first restart that reached the best objective,
  or the initial vector \<open>ab\<close> when no restart exceeded \<open>ob\<close>.
\<close>

definition restart_results ::
  "minimizer \<Rightarrow> uniform_source \<Rightarrow> objective \<Rightarrow> nat \<Rightarrow> nat \<Rightarrow> nat \<Rightarrow> opt_result result list" where
  "restart_results minimize uniform f n calls k =
     map (\<lambda>i. minimize f (uniform (calls + i) n)) [0..<k]"

definition best_objective :: "real \<Rightarrow> opt_result list \<Rightarrow> real" where
  "best_objective ob rs = Max (set (ob # map (\<lambda>r. - res_fun r) rs))"

definition best_angles :: "real \<Rightarrow> real list \<Rightarrow> opt_result list \<Rightarrow> real list" where
  "best_angles ob ab rs =
     (case find (\<lambda>r. - res_fun r = best_objective ob rs \<and> ob < - res_fun r) rs of
        None \<Rightarrow> ab | Some r \<Rightarrow> res_x r)"

section \<open>Properties of the generalized first-order evaluator\<close>

lemma z1_loop_sum:
  assumes "list_all (\<lambda>(u, v). u < n \<and> v < n) es"
    and "length gammas = n" and "length betas = n"
  shows "z1_loop (gammas @ betas) n acc es =
     Inr (acc - (\<Sum>(u, v) \<leftarrow> es.
            sin (2 * betas ! u) * sin (2 * betas ! v)
              * sin (2 * gammas ! u) * sin (2 * gammas ! v) / 2))"
  using assms
proof (induction es arbitrary: acc)
  case Nil
  then show ?case by simp
next
  case (Cons e es)
  obtain u v where e: "e = (u, v)" by (cases e)
  from Cons.prems e have uv: "u < n" "v < n" and rest: "list_all (\<lambda>(u, v). u < n \<and> v < n) es"
    by simp_all
  show ?case
    using uv Cons.prems(2,3) Cons.IH [OF rest Cons.prems(2,3)]
    by (simp add: e nth_append Let_def algebra_simps)
qed

lemma z1_formula_pi4:
  assumes "list_all (\<lambda>(u, v). u < n \<and> v < n) es" and "length xs = n"
  shows "(\<Sum>(u, v) \<leftarrow> es.
            sin (2 * xs ! u) * sin (2 * xs ! v)
              * sin (2 * replicate n (pi / 4) ! u) * sin (2 * replicate n (pi / 4) ! v) / 2)
       = (\<Sum>(u, v) \<leftarrow> es.
            sin (2 * replicate n (pi / 4) ! u) * sin (2 * replicate n (pi / 4) ! v)
              * sin (2 * xs ! u) * sin (2 * xs ! v) / 2)"
  using assms by (induction es) (auto simp: algebra_simps)

text \<open>
  Claim C9. On a graph whose edges join nodes \<open>0..n-1\<close>, and an angle vector made of
  \<open>n\<close> gammas followed by \<open>n\<close> betas, the generalized Z1 evaluator returns
  \<open>num_edges / 2\<close> minus the sum over the edges \<open>(u, v)\<close> of
  \<open>sin(2 beta_u) sin(2 beta_v) sin(2 gamma_u) sin(2 gamma_v) / 2\<close>; and the reduced
  variant, given the \<open>n\<close> free gammas alone, returns the value of the full evaluator
  with every beta fixed at \<open>pi / 4\<close>.
\<close>

theorem z1_evaluator_formula:
  assumes "edges_in_range g"
    and "length gammas = length (nodes g)" and "length betas = length (nodes g)"
  shows "calc_expectation_general_analytical_z1 (gammas @ betas) g
           = Inr (z1_formula gammas betas g)
       \<and> calc_expectation_general_analytical_z1_reduced gammas g
           = calc_expectation_general_analytical_z1
               (gammas @ replicate (length (nodes g)) (pi / 4)) g"
proof -
  let ?n = "length (nodes g)"
  let ?es = "get_index_edge_list g"
  from assms(1) have r: "list_all (\<lambda>(u, v). u < ?n \<and> v < ?n) ?es"
    by (simp add: edges_in_range_def)
  have full: "calc_expectation_general_analytical_z1 (gammas @ betas) g
                = Inr (z1_formula gammas betas g)"
    unfolding calc_expectation_general_analytical_z1_def z1_formula_def
    by (rule z1_loop_sum [OF r assms(2,3)])
  have red: "calc_expectation_general_analytical_z1_reduced gammas g
        = z1_loop (replicate ?n (pi / 4) @ gammas) ?n (real (length (edges g)) / 2) ?es"
    by (simp add: calc_expectation_general_analytical_z1_reduced_def
        calc_expectation_general_analytical_z1_def Let_def)
  have "z1_loop (replicate ?n (pi / 4) @ gammas) ?n (real (length (edges g)) / 2) ?es
      = z1_loop (gammas @ replicate ?n (pi / 4)) ?n (real (length (edges g)) / 2) ?es"
    using z1_loop_sum [OF r _ assms(2), of "replicate ?n (pi / 4)"]
      z1_loop_sum [OF r assms(2), of "replicate ?n (pi / 4)"]
      z1_formula_pi4 [OF r assms(2)]
    by simp
  with red have "calc_expectation_general_analytical_z1_reduced gammas g
        = calc_expectation_general_analytical_z1 (gammas @ replicate ?n (pi / 4)) g"
    by (simp add: calc_expectation_general_analytical_z1_def)
  with full show ?thesis by simp
qed

theorem z1_evaluator_formula_witness:
  "edges_in_range (single_edge 1)
   \<and> length [pi / 4, pi / 4 :: real] = length (nodes (single_edge 1))
   \<and> calc_expectation_general_analytical_z1 ([pi / 4, pi / 4] @ [pi / 4, pi / 4]) (single_edge 1)
       = Inr 0
   \<and> calc_expectation_general_analytical_z1_reduced [pi / 4, pi / 4] (single_edge 1)
       = calc_expectation_general_analytical_z1
           ([pi / 4, pi / 4] @ replicate (length (nodes (single_edge 1))) (pi / 4)) (single_edge 1)"
proof -
  have h: "edges_in_range (single_edge 1)"
    by (simp add: edges_in_range_def get_index_edge_list_def single_edge_def)
  have l: "length [pi / 4, pi / 4 :: real] = length (nodes (single_edge 1))"
    by (simp add: single_edge_def)
  have v: "z1_formula [pi / 4, pi / 4] [pi / 4, pi / 4] (single_edge 1) = 0"
    by (simp add: z1_formula_def get_index_edge_list_def single_edge_def)
  show ?thesis
    using z1_evaluator_formula [OF h l l] h l v by simp
qed

section \<open>Properties of the optimization drivers\<close>

lemma collect_Cons_Inr:
  "collect (x # xs) = Inr ys \<longleftrightarrow> (\<exists>a as. x = Inr a \<and> collect xs = Inr as \<and> ys = a # as)"
  by (cases x; cases "collect xs") auto

lemma restart_results_Suc:
  "restart_results m u f n calls (Suc k) = m f (u calls n) # restart_results m u f n (Suc calls) k"
proof -
  have "[0..<Suc k] = 0 # map Suc [0..<k]"
    by (simp add: upt_conv_Cons map_Suc_upt del: upt_Suc)
  then show ?thesis by (simp add: restart_results_def comp_def del: upt_Suc)
qed

lemma best_objective_Cons:
  "best_objective ob (r # rs) = best_objective (max ob (- res_fun r)) rs"
proof -
  have "Max (insert ob (insert (- res_fun r) (set (map (\<lambda>r. - res_fun r) rs))))
      = Max (insert (max ob (- res_fun r)) (set (map (\<lambda>r. - res_fun r) rs)))"
    by (cases "set (map (\<lambda>r. - res_fun r) rs) = {}") (auto simp: max.assoc)
  then show ?thesis by (simp add: best_objective_def)
qed

lemma best_objective_ge: "ob \<le> best_objective ob rs"
  by (simp add: best_objective_def)

lemma best_objective_attained:
  "best_objective ob rs \<noteq> ob \<Longrightarrow> \<exists>r \<in> set rs. - res_fun r = best_objective ob rs"
proof -
  assume ne: "best_objective ob rs \<noteq> ob"
  have "Max (set (ob # map (\<lambda>r. - res_fun r) rs)) \<in> set (ob # map (\<lambda>r. - res_fun r) rs)"
    by (rule Max_in) simp_all
  with ne show ?thesis by (auto simp: best_objective_def)
qed

lemma best_angles_Cons:
  "best_angles ob ab (r # rs) =
     (if ob < - res_fun r then best_angles (- res_fun r) (res_x r) rs else best_angles ob ab rs)"
proof (cases "ob < - res_fun r")
  case True
  define nb where "nb = - res_fun r"
  define M where "M = best_objective nb rs"
  have lt: "ob < nb" using True by (simp add: nb_def)
  have M: "best_objective ob (r # rs) = M"
    using True by (simp add: best_objective_Cons max_def M_def nb_def)
  have l: "best_angles ob ab (r # rs)
      = (case (if nb = M then Some r else find (\<lambda>r'. - res_fun r' = M \<and> ob < - res_fun r') rs) of
           None \<Rightarrow> ab | Some r \<Rightarrow> res_x r)"
    unfolding best_angles_def M using lt by (simp add: nb_def)
  have r: "best_angles nb (res_x r) rs
      = (case find (\<lambda>r'. - res_fun r' = M \<and> nb < - res_fun r') rs of
           None \<Rightarrow> res_x r | Some r \<Rightarrow> res_x r)"
    unfolding best_angles_def M_def ..
  have "best_angles ob ab (r # rs) = best_angles nb (res_x r) rs"
  proof (cases "nb = M")
    case eq: True
    have "find (\<lambda>r'. - res_fun r' = M \<and> nb < - res_fun r') rs = None"
      using eq by (auto simp: find_None_iff)
    then show ?thesis unfolding l r using eq by simp
  next
    case False
    with best_objective_ge [of nb rs] have oM: "nb < M" by (simp add: M_def)
    have eq: "find (\<lambda>r'. - res_fun r' = M \<and> ob < - res_fun r') rs
        = find (\<lambda>r'. - res_fun r' = M \<and> nb < - res_fun r') rs"
      using oM lt by (intro find_cong) auto
    from False best_objective_attained [of nb rs] obtain r' where
      "r' \<in> set rs" "- res_fun r' = M" by (auto simp: M_def)
    with oM have "find (\<lambda>r'. - res_fun r' = M \<and> nb < - res_fun r') rs \<noteq> None"
      by (auto simp: find_None_iff)
    then show ?thesis unfolding l r using False eq by auto
  qed
  then show ?thesis using True by (simp add: nb_def)
next
  case False
  then have "best_objective ob (r # rs) = best_objective ob rs"
    by (simp add: best_objective_Cons max_def)
  then show ?thesis using False by (simp add: best_angles_def)
qed

lemma restarts_loop_best:
  assumes u: "\<forall>i m. length (uniform i m) = m"
    and m: "\<forall>x0 r. minimize f x0 = Inr r \<longrightarrow> length (res_x r) = length x0"
  shows "collect (restart_results minimize uniform f (length ab) calls k) = Inr rs
     \<Longrightarrow> restarts_loop minimize uniform f k (ob, ab, calls)
           = Inr (best_objective ob rs, best_angles ob ab rs, calls + k)"
proof (induction k arbitrary: ob ab calls rs)
  case 0
  then show ?case by (simp add: restart_results_def best_objective_def best_angles_def)
next
  case (Suc k)
  from Suc.prems obtain r rs' where
    r: "minimize f (uniform calls (length ab)) = Inr r"
    and rs': "collect (restart_results minimize uniform f (length ab) (Suc calls) k) = Inr rs'"
    and rs: "rs = r # rs'"
    by (auto simp: restart_results_Suc collect_Cons_Inr)
  from m r u have len: "length (res_x r) = length ab" by simp
  show ?case
  proof (cases "ob < - res_fun r")
    case True
    from rs' len have "collect (restart_results minimize uniform f (length (res_x r)) (Suc calls) k) = Inr rs'"
      by simp
    from Suc.IH [OF this] True r show ?thesis
      by (simp add: rs best_objective_Cons best_angles_Cons max_def)
  next
    case False
    from Suc.IH [OF rs'] False r show ?thesis
      by (simp add: rs best_objective_Cons best_angles_Cons max_def)
  qed
qed


lemma restarts_loop_no_improvement:
  assumes "\<forall>i<k. \<exists>r. minimize f (uniform (calls + i) (length ab)) = Inr r \<and> - res_fun r \<le> ob"
  shows "restarts_loop minimize uniform f k (ob, ab, calls) = Inr (ob, ab, calls + k)"
  using assms
proof (induction k arbitrary: calls)
  case 0
  then show ?case by simp
next
  case (Suc k)
  from Suc.prems obtain r where r: "minimize f (uniform calls (length ab)) = Inr r" "- res_fun r \<le> ob"
    by force
  have "\<forall>i<k. \<exists>r. minimize f (uniform (Suc calls + i) (length ab)) = Inr r \<and> - res_fun r \<le> ob"
    using Suc.prems by (metis Suc_less_eq add_Suc_shift)
  from Suc.IH [OF this] r show ?case by simp
qed



lemma attempts_loop_calls:
  "attempts_loop minimize uniform f objective_max k (ob, ab, calls) = Inr (ob', ab', calls')
   \<Longrightarrow> calls \<le> calls' \<and> calls' \<le> calls + k \<and> (calls' < calls + k \<longrightarrow> objective_max - ob' < 1 / 1000)"
proof (induction k arbitrary: ob ab calls)
  case 0
  then show ?case by simp
next
  case (Suc k)
  show ?case
  proof (cases "objective_max - ob < 1 / 1000")
    case True
    with Suc.prems show ?thesis by simp
  next
    case False
    with Suc.prems obtain r where r: "minimize f (uniform calls (length ab)) = Inr r"
      by (auto simp: Let_def split: sum.splits)
    show ?thesis
    proof (cases "ob < - res_fun r")
      case True
      with Suc.prems False r have
        "attempts_loop minimize uniform f objective_max k
           (- res_fun r, map (\<lambda>a. a / pi) (uniform calls (length ab)), Suc calls) = Inr (ob', ab', calls')"
        by simp
      from Suc.IH [OF this] show ?thesis by auto
    next
      case nb: False
      with Suc.prems False r have
        "attempts_loop minimize uniform f objective_max k (ob, ab, Suc calls) = Inr (ob', ab', calls')"
        by simp
      from Suc.IH [OF this] show ?thesis by auto
    qed
  qed
qed

lemma set_gamma_single_edge:
  "set_edge_attributes_gamma (g # gs) (single_edge w) = annotated_edge w (g * w)"
  by (simp add: set_edge_attributes_gamma_def single_edge_def annotated_edge_def)

lemma adj_annotated_edge:
  "adj (annotated_edge w x) 0 = [1]" "adj (annotated_edge w x) (Suc 0) = [0]"
  by (simp_all add: adj_def annotated_edge_def)

lemma lookup_annotated_edge:
  "edge_weight (annotated_edge w x) 0 (Suc 0) = Inr w"
  "edge_gamma (annotated_edge w x) 0 (Suc 0) = Inr x"
  by (simp_all add: edge_weight_def edge_gamma_def annotated_edge_def)

lemma contribution_annotated_edge:
  "edge_contribution (annotated_edge w x) [b0, b1] 0 (Suc 0)
     = Inr (w / 2 + w / 2 * sin x * (sin (2 * b0) * cos (2 * b1) + cos (2 * b0) * sin (2 * b1)))"
  by (simp add: edge_contribution_def adj_annotated_edge lookup_annotated_edge)

lemma single_edge_value:
  "run_ma_qaoa_analytical_p1 [g, b0, b1] (single_edge w) None
     = (Inr (w / 2 + w / 2 * sin (g * w) * (sin (2 * b0) * cos (2 * b1) + cos (2 * b0) * sin (2 * b1))),
        annotated_edge w (g * w))"
proof -
  have e: "edges (single_edge w) = [((0, 1), \<lparr>weight = w, gamma = None\<rparr>)]"
    by (simp add: single_edge_def)
  show ?thesis
    by (simp add: run_ma_qaoa_analytical_p1_def e set_gamma_single_edge contribution_annotated_edge)
qed

lemma attempts_loop_best:
  assumes u: "\<forall>i m. length (uniform i m) = m"
  shows "attempts_loop minimize uniform f objective_max k (ob, ab, calls) = Inr (ob', ab', calls')
    \<Longrightarrow> \<exists>rs. collect (restart_results minimize uniform f (length ab) calls (calls' - calls)) = Inr rs
            \<and> ob' = best_objective ob rs"
proof (induction k arbitrary: ob ab calls)
  case 0
  then show ?case by (simp add: restart_results_def best_objective_def)
next
  case (Suc k)
  show ?case
  proof (cases "objective_max - ob < 1 / 1000")
    case True
    with Suc.prems show ?thesis by (simp add: restart_results_def best_objective_def)
  next
    case False
    with Suc.prems obtain r where r: "minimize f (uniform calls (length ab)) = Inr r"
      by (auto simp: Let_def split: sum.splits)
    define s where "s = (if ob < - res_fun r
        then (- res_fun r, map (\<lambda>a. a / pi) (uniform calls (length ab)), Suc calls)
        else (ob, ab, Suc calls))"
    obtain ob1 ab1 where s1: "s = (ob1, ab1, Suc calls)"
      by (cases "ob < - res_fun r") (auto simp: s_def)
    have len: "length ab1 = length ab" using s1 u by (auto simp: s_def split: if_splits)
    have ob1: "ob1 = max ob (- res_fun r)" using s1 by (auto simp: s_def split: if_splits)
    from Suc.prems False r have run:
      "attempts_loop minimize uniform f objective_max k (ob1, ab1, Suc calls) = Inr (ob', ab', calls')"
      unfolding s1 [symmetric] by (auto simp: s_def)
    from attempts_loop_calls [OF run] have c: "calls' - calls = Suc (calls' - Suc calls)" by auto
    from Suc.IH [OF run] len obtain rs where
      rs: "collect (restart_results minimize uniform f (length ab) (Suc calls) (calls' - Suc calls)) = Inr rs"
        "ob' = best_objective ob1 rs" by auto
    show ?thesis
      unfolding c restart_results_Suc
      using rs r by (intro exI [of _ "r # rs"]) (simp add: best_objective_Cons ob1)
  qed
qed

lemma single_edge_evaluator:
  "func (get_evaluator_standard_maxcut_analytical (single_edge w) None True) [g, b0, b1]
     = Inr (- (w / 2 + w / 2 * sin (g * w) * (sin (2 * b0) * cos (2 * b1) + cos (2 * b0) * sin (2 * b1))))"
  "num_angles (get_evaluator_standard_maxcut_analytical (single_edge w) None True) = 3"
  by (simp_all add: get_evaluator_standard_maxcut_analytical_def
        calc_expectation_ma_qaoa_analytical_p1_def single_edge_value change_sign_def)
     (simp add: single_edge_def)

lemma single_edge_core_objective:
  "core_objective True True p (single_edge w) None tables [g, b0, b1]
     = Inr (- (w / 2 + w / 2 * sin (g * w) * (sin (2 * b0) * cos (2 * b1) + cos (2 * b0) * sin (2 * b1))))"
  by (cases tables) (simp add: core_objective_def single_edge_value change_sign_def)

lemma zero_source_length: "\<forall>i m. length (zero_source i m) = m"
  by (simp add: zero_source_def)

lemma target_minimizer_length:
  "\<forall>f x0 r. target_minimizer xstar f x0 = Inr r \<longrightarrow> length (res_x r) = length x0"
  by (auto simp: target_minimizer_def Let_def split: sum.splits if_splits)

text \<open>
  Claim C7. When the driver of src/qaoa_core.py is asked for the analytical evaluator
  with a number of layers other than 1, it fails with an assertion error, whatever the
  graph, the minimizer and the random source are: the assertion stands before the
  preprocessing and before the first restart.
\<close>

theorem analytical_only_at_p1:
  "use_analytical \<Longrightarrow> p \<noteq> 1
   \<Longrightarrow> optimize_qaoa_angles_core minimize uniform multi_angle use_analytical p g edge_list calls
         = Inl AssertionError"
  by (simp add: optimize_qaoa_angles_core_def)

theorem analytical_only_at_p1_witness:
  "optimize_qaoa_angles_core (target_minimizer [pi / 2, pi / 4, 0]) zero_source True True 2
     (single_edge 1) None 0 = Inl AssertionError"
proof -
  have "(2 :: int) \<noteq> 1" by simp
  from analytical_only_at_p1 [OF TrueI this] show ?thesis .
qed

text \<open>
  Claim C10. When at every restart the minimizer succeeds with a minimum of the
  sign-flipped objective that is not negative, the driver of src/src/optimization.py
  returns the objective 0 with the all-zeros angle vector it started from.
\<close>

theorem zero_start_returned:
  assumes "\<forall>i<num_restarts. \<exists>r. minimize (func ev) (uniform (calls + i) (num_angles ev)) = Inr r
                                     \<and> 0 \<le> res_fun r"
  shows "optimize_qaoa_angles minimize uniform ev num_restarts calls
           = Inr ((0, replicate (num_angles ev) 0), calls + num_restarts)"
proof -
  have "\<forall>i<num_restarts. \<exists>r.
          minimize (func ev) (uniform (calls + i) (length (replicate (num_angles ev) (0 :: real)))) = Inr r
          \<and> - res_fun r \<le> 0"
    using assms by simp
  then have "restarts_loop minimize uniform (func ev) num_restarts
               (0, replicate (num_angles ev) 0, calls)
             = Inr (0, replicate (num_angles ev) 0, calls + num_restarts)"
    by (rule restarts_loop_no_improvement)
  then show ?thesis
    by (simp add: optimize_qaoa_angles_def)
qed

theorem zero_start_returned_witness:
  "optimize_qaoa_angles (target_minimizer [pi / 2, pi / 4, 0]) zero_source
     (get_evaluator_standard_maxcut_analytical (single_edge (- 1)) None True) 2 0
     = Inr ((0, [0, 0, 0]), 2)"
proof -
  let ?ev = "get_evaluator_standard_maxcut_analytical (single_edge (- 1)) None True"
  have "\<forall>i<2. \<exists>r. target_minimizer [pi / 2, pi / 4, 0] (func ?ev) (zero_source (0 + i) (num_angles ?ev)) = Inr r
                   \<and> 0 \<le> res_fun r"
    by (simp add: single_edge_evaluator target_minimizer_def zero_source_def)
  then have "optimize_qaoa_angles (target_minimizer [pi / 2, pi / 4, 0]) zero_source ?ev 2 0
               = Inr ((0, replicate (num_angles ?ev) 0), 0 + 2)"
    by (rule zero_start_returned)
  then show ?thesis
    by (simp add: single_edge_evaluator eval_nat_numeral)
qed

text \<open>
  Claim C4, as amended. Let the random source return vectors of the requested size and
  the minimizer return a vector of the size of its start. In src/src/optimization.py,
  when all \<open>k\<close> restarts succeed the driver returns the pair of the best objective among
  0 and the restarts' negated minima, and the minimizing vector the optimizer returned
  at the first restart that reached it (the zero vector when no restart exceeded 0). In
  src/qaoa_core.py the driver returns the objective alone: the best among 0 and the
  negated minima of the restarts it ran.
\<close>

theorem restart_record:
  assumes "\<forall>i m. length (uniform i m) = m"
    and "\<forall>f x0 r. minimize f x0 = Inr r \<longrightarrow> length (res_x r) = length x0"
  shows "(collect (restart_results minimize uniform (func ev) (num_angles ev) calls k) = Inr rs
          \<longrightarrow> optimize_qaoa_angles minimize uniform ev k calls
                = Inr ((best_objective 0 rs, best_angles 0 (replicate (num_angles ev) 0) rs),
                       calls + k))
       \<and> (optimize_qaoa_angles_core minimize uniform multi_angle use_analytical p g edge_list calls
            = Inr (objective, calls')
          \<longrightarrow> (\<exists>tables rs.
                 collect (restart_results minimize uniform
                            (core_objective multi_angle use_analytical p g edge_list tables)
                            ((if multi_angle then length (edges g) + length (nodes g) else 2) * nat p)
                            calls (calls' - calls)) = Inr rs
                 \<and> objective = best_objective 0 rs))"
proof (intro conjI impI)
  assume c: "collect (restart_results minimize uniform (func ev) (num_angles ev) calls k) = Inr rs"
  have m: "\<forall>x0 r. minimize (func ev) x0 = Inr r \<longrightarrow> length (res_x r) = length x0"
    using assms(2) by blast
  from c have "collect (restart_results minimize uniform (func ev)
                 (length (replicate (num_angles ev) (0 :: real))) calls k) = Inr rs"
    by simp
  from restarts_loop_best [OF assms(1) m this]
  show "optimize_qaoa_angles minimize uniform ev k calls
          = Inr ((best_objective 0 rs, best_angles 0 (replicate (num_angles ev) 0) rs), calls + k)"
    by (simp add: optimize_qaoa_angles_def)
next
  let ?n = "(if multi_angle then length (edges g) + length (nodes g) else 2) * nat p"
  assume r: "optimize_qaoa_angles_core minimize uniform multi_angle use_analytical p g edge_list calls
               = Inr (objective, calls')"
  then obtain tables ab where a:
    "attempts_loop minimize uniform (core_objective multi_angle use_analytical p g edge_list tables)
       (\<Sum>(e, d) \<leftarrow> edges g. weight d) 10 (0, replicate ?n 0, calls) = Inr (objective, ab, calls')"
    by (auto simp: optimize_qaoa_angles_core_def Let_def split: if_splits sum.splits)
  from attempts_loop_best [OF assms(1) a] obtain rs where
    "collect (restart_results minimize uniform
                (core_objective multi_angle use_analytical p g edge_list tables)
                (length (replicate ?n (0 :: real))) calls (calls' - calls)) = Inr rs"
    "objective = best_objective 0 rs"
    by blast
  then have "collect (restart_results minimize uniform
                (core_objective multi_angle use_analytical p g edge_list tables) ?n
                calls (calls' - calls)) = Inr rs \<and> objective = best_objective 0 rs"
    by (simp only: length_replicate simp_thms)
  then show "\<exists>tables rs.
          collect (restart_results minimize uniform
                     (core_objective multi_angle use_analytical p g edge_list tables) ?n
                     calls (calls' - calls)) = Inr rs
          \<and> objective = best_objective 0 rs"
    by blast
qed

lemma core_single_edge_run:
  "optimize_qaoa_angles_core (target_minimizer [pi / 2, pi / 4, 0]) zero_source True True 1
     (single_edge 1) None 0 = Inr (1, 1)"
proof -
  have e: "edges (single_edge 1) = [((0, 1), \<lparr>weight = 1, gamma = None\<rparr>)]"
    "nodes (single_edge 1) = [0, 1]"
    by (simp_all add: single_edge_def)
  show ?thesis
    by (simp add: optimize_qaoa_angles_core_def e single_edge_core_objective
        target_minimizer_def zero_source_def eval_nat_numeral)
qed

theorem restart_record_witness:
  "optimize_qaoa_angles (target_minimizer [pi / 2, pi / 4, 0]) zero_source
     (get_evaluator_standard_maxcut_analytical (single_edge 1) None True) 2 0
     = Inr ((1, [pi / 2, pi / 4, 0]), 2)
   \<and> (\<exists>tables rs.
         collect (restart_results (target_minimizer [pi / 2, pi / 4, 0]) zero_source
                    (core_objective True True 1 (single_edge 1) None tables)
                    ((length (edges (single_edge 1)) + length (nodes (single_edge 1))) * nat 1)
                    0 (1 - 0)) = Inr rs
         \<and> (1 :: real) = best_objective 0 rs)"
proof -
  let ?m = "target_minimizer [pi / 2, pi / 4, 0]"
  let ?ev = "get_evaluator_standard_maxcut_analytical (single_edge 1) None True"
  let ?r = "\<lparr>res_fun = - 1, res_x = [pi / 2, pi / 4, 0]\<rparr>"
  have c: "collect (restart_results ?m zero_source (func ?ev) (num_angles ?ev) 0 2) = Inr [?r, ?r]"
    by (simp add: restart_results_def single_edge_evaluator target_minimizer_def zero_source_def
        upt_rec)
  have b: "best_objective 0 [?r, ?r] = 1"
    "best_angles 0 (replicate (num_angles ?ev) 0) [?r, ?r] = [pi / 2, pi / 4, 0]"
    by (simp_all add: best_angles_def best_objective_def)
  note t = restart_record [OF zero_source_length target_minimizer_length,
      of "[pi / 2, pi / 4, 0]" ?ev 0 2 "[?r, ?r]" True True 1 "single_edge 1" None 1 1]
  from t c b core_single_edge_run show ?thesis by simp
qed

text \<open>
  Claim C4 as stated fails on the driver of src/qaoa_core.py. On the single edge of
  weight 1, the first restart starts from the zero vector and the minimizer returns the
  vector \<open>[pi / 2, pi / 4, 0]\<close> with the negated minimum 1, which exceeds the best so
  far; the driver records the objective 1 together with the start vector divided by
  \<open>pi\<close>, not with the minimizing vector.
\<close>

theorem restart_record_counterexample:
  "target_minimizer [pi / 2, pi / 4, 0]
     (core_objective True True 1 (single_edge 1) None ([], [], [], None)) (zero_source 0 3)
     = Inr \<lparr>res_fun = - 1, res_x = [pi / 2, pi / 4, 0]\<rparr>
   \<and> attempts_loop (target_minimizer [pi / 2, pi / 4, 0]) zero_source
       (core_objective True True 1 (single_edge 1) None ([], [], [], None)) 1 10
       (0, [0, 0, 0], 0) = Inr (1, [0, 0, 0], 1)
   \<and> [0, 0, 0] \<noteq> [pi / 2, pi / 4, 0 :: real]"
  by (simp add: single_edge_core_objective target_minimizer_def zero_source_def eval_nat_numeral)






section \<open>Properties of the closed-form evaluator\<close>

lemma set_gamma_nodes: "nodes (set_edge_attributes_gamma gs g) = nodes g"
  by (simp add: set_edge_attributes_gamma_def)

lemma enumerate_keys:
  "map fst (map (\<lambda>(i, (e, d)). (e, d\<lparr>gamma := Some (gs ! i * weight d)\<rparr>)) (enumerate n es))
     = map fst es"
  by (induction es arbitrary: n) auto

lemma enumerate_weights:
  "map (\<lambda>(e, d). weight d)
       (map (\<lambda>(i, (e, d)). (e, d\<lparr>gamma := Some (gs ! i * weight d)\<rparr>)) (enumerate n es))
     = map (\<lambda>(e, d). weight d) es"
  by (induction es arbitrary: n) auto

lemma enumerate_gammas:
  "map (\<lambda>(e, d). gamma d)
       (map (\<lambda>(i, (e, d)). (e, d\<lparr>gamma := Some (gs ! i * weight d)\<rparr>)) (enumerate n es))
     = map (\<lambda>(i, (e, d)). Some (gs ! i * weight d)) (enumerate n es)"
  by (induction es arbitrary: n) auto

lemma enumerate_overwrite:
  "map (\<lambda>(i, (e, d)). (e, d\<lparr>gamma := Some (gs ! i * weight d)\<rparr>))
       (enumerate n (map (\<lambda>(i, (e, d)). (e, d\<lparr>gamma := Some (hs ! i * weight d)\<rparr>))
                         (enumerate n es)))
     = map (\<lambda>(i, (e, d)). (e, d\<lparr>gamma := Some (gs ! i * weight d)\<rparr>)) (enumerate n es)"
  by (induction es arbitrary: n) auto

lemma set_gamma_overwrite:
  "set_edge_attributes_gamma gs (set_edge_attributes_gamma hs g) = set_edge_attributes_gamma gs g"
  by (simp add: set_edge_attributes_gamma_def enumerate_overwrite)

lemma set_gamma_length: "length (edges (set_edge_attributes_gamma gs g)) = length (edges g)"
  by (simp add: set_edge_attributes_gamma_def)

lemma set_gamma_keys: "map fst (edges (set_edge_attributes_gamma gs g)) = map fst (edges g)"
  by (simp add: set_edge_attributes_gamma_def enumerate_keys del: map_map)

lemma enumerate_take:
  "length es \<le> length angles
   \<Longrightarrow> map (\<lambda>(i, (e, d)). Some (take (length es) angles ! i * weight d)) (enumerate 0 es)
     = map (\<lambda>(i, (e, d)). Some (angles ! i * weight d)) (enumerate 0 es)"
  by (auto simp: in_set_enumerate_eq)

lemma analytical_graph_after:
  "snd (run_ma_qaoa_analytical_p1 angles g el)
     = (if length angles < length (edges g) then g
        else set_edge_attributes_gamma (take (length (edges g)) angles) g)"
  by (simp add: run_ma_qaoa_analytical_p1_def Let_def)

lemma analytical_value_fresh:
  "fst (run_ma_qaoa_analytical_p1 angles (snd (run_ma_qaoa_analytical_p1 angles0 g el0)) el)
     = fst (run_ma_qaoa_analytical_p1 angles g el)"
  by (simp add: analytical_graph_after)
     (simp add: run_ma_qaoa_analytical_p1_def Let_def set_gamma_length set_gamma_keys
        set_gamma_overwrite split: option.splits)

text \<open>
  Claim C5, as amended. A call of the closed-form evaluator leaves the graph's nodes,
  its edges and their weights as they were; when the angle vector has an entry for every
  edge, each edge carries afterwards the attribute \<open>gamma\<close>, its own angle times its
  weight, and the attribute stays on the graph after the call has returned. The next
  call overwrites it before reading it, so the value a call returns does not depend on
  what an earlier call has stored. The evaluator of src/src/analytical.py is the one of
  src/qaoa_core.py.
\<close>

theorem annotation_persists:
  "nodes (snd (run_ma_qaoa_analytical_p1 angles g el)) = nodes g
   \<and> map fst (edges (snd (run_ma_qaoa_analytical_p1 angles g el))) = map fst (edges g)
   \<and> map (\<lambda>(e, d). weight d) (edges (snd (run_ma_qaoa_analytical_p1 angles g el)))
       = map (\<lambda>(e, d). weight d) (edges g)
   \<and> (length (edges g) \<le> length angles
      \<longrightarrow> map (\<lambda>(e, d). gamma d) (edges (snd (run_ma_qaoa_analytical_p1 angles g el)))
           = map (\<lambda>(i, (e, d)). Some (angles ! i * weight d)) (enumerate 0 (edges g)))
   \<and> fst (run_ma_qaoa_analytical_p1 angles (snd (run_ma_qaoa_analytical_p1 angles0 g el0)) el)
       = fst (run_ma_qaoa_analytical_p1 angles g el)
   \<and> calc_expectation_ma_qaoa_analytical_p1 angles g el = run_ma_qaoa_analytical_p1 angles g el"
proof (intro conjI impI)
  show "nodes (snd (run_ma_qaoa_analytical_p1 angles g el)) = nodes g"
    by (simp add: analytical_graph_after set_gamma_nodes)
  show "map fst (edges (snd (run_ma_qaoa_analytical_p1 angles g el))) = map fst (edges g)"
    by (simp add: analytical_graph_after set_gamma_keys)
  show "map (\<lambda>(e, d). weight d) (edges (snd (run_ma_qaoa_analytical_p1 angles g el)))
          = map (\<lambda>(e, d). weight d) (edges g)"
    by (simp add: analytical_graph_after set_edge_attributes_gamma_def enumerate_weights
        del: map_map)
  show "fst (run_ma_qaoa_analytical_p1 angles (snd (run_ma_qaoa_analytical_p1 angles0 g el0)) el)
          = fst (run_ma_qaoa_analytical_p1 angles g el)"
    by (rule analytical_value_fresh)
  show "calc_expectation_ma_qaoa_analytical_p1 angles g el = run_ma_qaoa_analytical_p1 angles g el"
    by (simp add: calc_expectation_ma_qaoa_analytical_p1_def)
next
  assume "length (edges g) \<le> length angles"
  then show "map (\<lambda>(e, d). gamma d) (edges (snd (run_ma_qaoa_analytical_p1 angles g el)))
           = map (\<lambda>(i, (e, d)). Some (angles ! i * weight d)) (enumerate 0 (edges g))"
    by (simp add: analytical_graph_after set_edge_attributes_gamma_def enumerate_gammas
        enumerate_take del: map_map)
qed

theorem annotation_persists_witness:
  "map (\<lambda>(e, d). gamma d) (edges (snd (run_ma_qaoa_analytical_p1 [1, 0, 0] (single_edge 1) None)))
     = [Some 1]"
proof -
  have "length (edges (single_edge 1)) \<le> length [1, 0, 0 :: real]"
    by (simp add: single_edge_def)
  with annotation_persists [of "[1, 0, 0]" "single_edge 1" None]
  show ?thesis by (simp add: single_edge_def)
qed

text \<open>
  Claim C5 as stated fails: after a call with the gamma 1 on the single edge of weight
  1, the graph is not the graph the call received; its edge carries \<open>gamma = 1\<close>.
\<close>

theorem annotation_persists_counterexample:
  "snd (run_ma_qaoa_analytical_p1 [1, 0, 0] (single_edge 1) None) = annotated_edge 1 1
   \<and> snd (calc_expectation_ma_qaoa_analytical_p1 [1, 0, 0] (single_edge 1) None) = annotated_edge 1 1
   \<and> annotated_edge 1 1 \<noteq> single_edge 1"
  by (simp add: single_edge_value calc_expectation_ma_qaoa_analytical_p1_def)
     (simp add: annotated_edge_def single_edge_def)

section \<open>Properties of the state evolution engine\<close>

lemma get_exp_x_entries:
  "t < 2 \<Longrightarrow> get_exp_x beta ! t ! t = complex_of_real (cos beta)"
  "t < 2 \<Longrightarrow> get_exp_x beta ! (1 - t) ! t = - \<i> * complex_of_real (sin beta)"
  "t < 2 \<Longrightarrow> get_exp_x beta ! (Suc 0 - t) ! t = - \<i> * complex_of_real (sin beta)"
proof -
  assume "t < 2"
  then have "t = 0 \<or> t = 1" by auto
  then show "get_exp_x beta ! t ! t = complex_of_real (cos beta)"
    and "get_exp_x beta ! (1 - t) ! t = - \<i> * complex_of_real (sin beta)"
    and "get_exp_x beta ! (Suc 0 - t) ! t = - \<i> * complex_of_real (sin beta)"
    by (auto simp: get_exp_x_def)
qed

lemma one_qubit_loop_sum:
  assumes "length tn = N" "length tv = N" "length res = N"
    and "\<forall>i \<in> set is. i < N" and "\<forall>i < N. tv ! i < 2 \<and> tn ! i < N"
  shows "one_qubit_loop unitary psi tn tv res is =
     Inr (map (\<lambda>j. res ! j
                  + (\<Sum>i \<leftarrow> is. (if i = j then psi ! i * unitary ! (tv ! i) ! (tv ! i) else 0)
                              + (if tn ! i = j
                                 then psi ! i * unitary ! (1 - tv ! i) ! (tv ! i) else 0)))
              [0..<N])"
  using assms(3,4)
proof (induction "is" arbitrary: res)
  case Nil
  then show ?case by (auto intro: nth_equalityI)
next
  case (Cons i rest)
  let ?a = "psi ! i * unitary ! (tv ! i) ! (tv ! i)"
  let ?b = "psi ! i * unitary ! (1 - tv ! i) ! (tv ! i)"
  let ?res1 = "res[i := res ! i + ?a]"
  let ?res2 = "?res1[tn ! i := ?res1 ! (tn ! i) + ?b]"
  from Cons.prems have i: "i < N" and rest: "\<forall>i \<in> set rest. i < N" by simp_all
  from i assms(5) have t: "tv ! i < 2" "tn ! i < N" by simp_all
  have len2: "length ?res2 = N" using Cons.prems(1) by simp
  have step: "one_qubit_loop unitary psi tn tv res (i # rest)
      = one_qubit_loop unitary psi tn tv ?res2 rest"
    using i t assms(1,2) Cons.prems(1) by (simp add: Let_def)
  have nth2: "?res2 ! j = res ! j + (if i = j then ?a else 0) + (if tn ! i = j then ?b else 0)"
    if "j < N" for j
  proof -
    have "i < length res" "tn ! i < length res" "j < length res"
      using that i t Cons.prems(1) by simp_all
    then show ?thesis by (simp add: nth_list_update)
  qed
  have "map (\<lambda>j. ?res2 ! j
                  + (\<Sum>i \<leftarrow> rest. (if i = j then psi ! i * unitary ! (tv ! i) ! (tv ! i) else 0)
                              + (if tn ! i = j
                                 then psi ! i * unitary ! (1 - tv ! i) ! (tv ! i) else 0)))
              [0..<N]
      = map (\<lambda>j. res ! j
                  + (\<Sum>i \<leftarrow> i # rest. (if i = j then psi ! i * unitary ! (tv ! i) ! (tv ! i) else 0)
                              + (if tn ! i = j
                                 then psi ! i * unitary ! (1 - tv ! i) ! (tv ! i) else 0)))
              [0..<N]"
  proof (rule map_cong [OF refl])
    fix j assume "j \<in> set [0..<N]"
    then have j: "j < N" by simp
    show "?res2 ! j
                  + (\<Sum>i \<leftarrow> rest. (if i = j then psi ! i * unitary ! (tv ! i) ! (tv ! i) else 0)
                              + (if tn ! i = j
                                 then psi ! i * unitary ! (1 - tv ! i) ! (tv ! i) else 0))
      = res ! j
                  + (\<Sum>i \<leftarrow> i # rest. (if i = j then psi ! i * unitary ! (tv ! i) ! (tv ! i) else 0)
                              + (if tn ! i = j
                                 then psi ! i * unitary ! (1 - tv ! i) ! (tv ! i) else 0))"
      unfolding nth2 [OF j] by (simp add: algebra_simps)
  qed
  then show ?case
    unfolding step Cons.IH [OF len2 rest] by simp
qed

lemma sum_list_delta_nat:
  fixes f :: "nat \<Rightarrow> complex"
  shows "j < N \<Longrightarrow> (\<Sum>i \<leftarrow> [0..<N]. if i = j then f i else 0) = f j"
  by (simp add: sum_list_distinct_conv_sum_set sum.delta)

lemma sum_list_delta_flip:
  fixes f :: "nat \<Rightarrow> complex"
  assumes "valid_flip N tn" "j < N"
  shows "(\<Sum>i \<leftarrow> [0..<N]. if tn ! i = j then f i else 0) = f (tn ! j)"
proof -
  from assms have inv: "\<And>l. l < N \<Longrightarrow> tn ! l < N \<and> tn ! (tn ! l) = l"
    by (auto simp: valid_flip_def list_all_iff)
  have "(\<Sum>i \<leftarrow> [0..<N]. if tn ! i = j then f i else 0)
      = (\<Sum>i \<leftarrow> [0..<N]. if i = tn ! j then f i else 0)"
  proof (rule arg_cong [where f = sum_list], rule map_cong [OF refl])
    fix i assume "i \<in> set [0..<N]"
    then have "i < N" by simp
    with inv [of i] inv [of j] assms(2) have "tn ! i = j \<longleftrightarrow> i = tn ! j" by metis
    then show "(if tn ! i = j then f i else 0) = (if i = tn ! j then f i else 0)" by simp
  qed
  also have "\<dots> = f (tn ! j)"
    using inv [OF assms(2)] by (simp add: sum_list_delta_nat)
  finally show ?thesis .
qed

lemma apply_unitary_one_qubit_rotation:
  assumes "valid_flip N tn" "valid_bits N tv" "length psi = N"
  shows "apply_unitary_one_qubit (get_exp_x beta) psi tn tv = Inr (rotation beta tn psi)"
proof -
  from assms(1) have ltn: "length tn = N" and inv: "\<And>l. l < N \<Longrightarrow> tn ! l < N"
    by (auto simp: valid_flip_def list_all_iff)
  from assms(2) have ltv: "length tv = N" and bits: "\<And>l. l < N \<Longrightarrow> tv ! l < 2"
    by (auto simp: valid_bits_def list_all_length)
  have ok: "\<forall>i < N. tv ! i < 2 \<and> tn ! i < N" using inv bits by simp
  have "one_qubit_loop (get_exp_x beta) psi tn tv (replicate N 0) [0..<N] =
     Inr (map (\<lambda>j. replicate N 0 ! j
            + (\<Sum>i \<leftarrow> [0..<N].
                 (if i = j then psi ! i * get_exp_x beta ! (tv ! i) ! (tv ! i) else 0)
                 + (if tn ! i = j
                    then psi ! i * get_exp_x beta ! (1 - tv ! i) ! (tv ! i) else 0)))
          [0..<N])"
    by (rule one_qubit_loop_sum [OF ltn ltv _ _ ok]) simp_all
  also have "\<dots> = Inr (rotation beta tn psi)"
  proof -
    have "replicate N 0 ! j
            + (\<Sum>i \<leftarrow> [0..<N].
                 (if i = j then psi ! i * get_exp_x beta ! (tv ! i) ! (tv ! i) else 0)
                 + (if tn ! i = j
                    then psi ! i * get_exp_x beta ! (1 - tv ! i) ! (tv ! i) else 0))
        = complex_of_real (cos beta) * psi ! j
            + (- \<i> * complex_of_real (sin beta)) * psi ! (tn ! j)"
      if j: "j < N" for j
    proof -
      have e: "(\<Sum>i \<leftarrow> [0..<N].
                 (if i = j then psi ! i * get_exp_x beta ! (tv ! i) ! (tv ! i) else 0)
                 + (if tn ! i = j
                    then psi ! i * get_exp_x beta ! (1 - tv ! i) ! (tv ! i) else 0))
         = (\<Sum>i \<leftarrow> [0..<N]. (if i = j then psi ! i * complex_of_real (cos beta) else 0))
           + (\<Sum>i \<leftarrow> [0..<N]. (if tn ! i = j
                                 then psi ! i * (- \<i> * complex_of_real (sin beta)) else 0))"
        unfolding sum_list_addf [symmetric]
      proof (rule arg_cong [where f = sum_list], rule map_cong [OF refl])
        fix i assume "i \<in> set [0..<N]"
        then have "tv ! i < 2" using bits by simp
        then show "(if i = j then psi ! i * get_exp_x beta ! (tv ! i) ! (tv ! i) else 0)
                 + (if tn ! i = j
                    then psi ! i * get_exp_x beta ! (1 - tv ! i) ! (tv ! i) else 0)
           = (if i = j then psi ! i * complex_of_real (cos beta) else 0)
             + (if tn ! i = j then psi ! i * (- \<i> * complex_of_real (sin beta)) else 0)"
          by (simp only: get_exp_x_entries)
      qed
      show ?thesis
        unfolding e using j
        by (simp add: sum_list_delta_nat sum_list_delta_flip [OF assms(1)])
    qed
    then show ?thesis
      using assms(3) by (simp add: rotation_def)
  qed
  finally show ?thesis
    using assms(3) by (simp add: apply_unitary_one_qubit_def)
qed

lemma norm_sq_nth: "norm_sq psi = (\<Sum>l = 0..<length psi. (cmod (psi ! l))\<^sup>2)"
  by (simp add: norm_sq_def sum_list_sum_nth)

lemma valid_flip_D:
  assumes "valid_flip N tn" "l < N"
  shows "tn ! l < N" "tn ! (tn ! l) = l"
  using assms by (auto simp: valid_flip_def list_all_iff)

lemma flip_reindex:
  fixes h :: "nat \<Rightarrow> real"
  assumes "valid_flip N tn"
  shows "(\<Sum>l = 0..<N. h (tn ! l)) = (\<Sum>l = 0..<N. h l)"
  by (rule sum.reindex_bij_witness [of _ "\<lambda>l. tn ! l" "\<lambda>l. tn ! l"])
     (use valid_flip_D [OF assms] in auto)

lemma rotation_entry_norm:
  "(cmod (complex_of_real (cos b) * x + (- \<i> * complex_of_real (sin b)) * y))\<^sup>2
     = (cos b)\<^sup>2 * (cmod x)\<^sup>2 + (sin b)\<^sup>2 * (cmod y)\<^sup>2
       + 2 * cos b * sin b * (Re x * Im y - Im x * Re y)"
  unfolding cmod_power2 by (simp add: power2_eq_square algebra_simps)

lemma length_rotation [simp]: "length (rotation beta tn psi) = length psi"
  by (simp add: rotation_def)

lemma rotation_norm:
  assumes "valid_flip N tn" "length psi = N"
  shows "norm_sq (rotation beta tn psi) = norm_sq psi"
proof -
  define a where "a l = (cmod (psi ! l))\<^sup>2" for l
  define g where "g l = Re (psi ! l) * Im (psi ! (tn ! l)) - Im (psi ! l) * Re (psi ! (tn ! l))" for l
  have anti: "g (tn ! l) = - g l" if "l < N" for l
    using valid_flip_D [OF assms(1) that] by (simp add: g_def)
  have "(\<Sum>l = 0..<N. g (tn ! l)) = (\<Sum>l = 0..<N. g l)"
    by (rule flip_reindex [OF assms(1)])
  moreover have "(\<Sum>l = 0..<N. g (tn ! l)) = (\<Sum>l = 0..<N. - g l)"
    by (rule sum.cong) (simp_all add: anti)
  ultimately have g0: "(\<Sum>l = 0..<N. g l) = 0"
    by (simp add: sum_negf)
  have a1: "(\<Sum>l = 0..<N. a (tn ! l)) = (\<Sum>l = 0..<N. a l)"
    by (rule flip_reindex [OF assms(1)])
  have "norm_sq (rotation beta tn psi)
      = (\<Sum>l = 0..<N. (cos beta)\<^sup>2 * a l + (sin beta)\<^sup>2 * a (tn ! l)
                        + 2 * cos beta * sin beta * g l)"
    unfolding norm_sq_nth length_rotation assms(2)
  proof (rule sum.cong [OF refl])
    fix l assume "l \<in> {0..<N}"
    then have l: "l < N" by simp
    have ent: "rotation beta tn psi ! l
        = complex_of_real (cos beta) * psi ! l
          + (- \<i> * complex_of_real (sin beta)) * psi ! (tn ! l)"
      unfolding rotation_def using l assms(2) by (simp only: nth_map length_upt nth_upt) simp
    show "(cmod (rotation beta tn psi ! l))\<^sup>2
        = (cos beta)\<^sup>2 * a l + (sin beta)\<^sup>2 * a (tn ! l) + 2 * cos beta * sin beta * g l"
      by (simp only: ent rotation_entry_norm a_def g_def)
  qed
  also have "\<dots> = (cos beta)\<^sup>2 * (\<Sum>l = 0..<N. a l) + (sin beta)\<^sup>2 * (\<Sum>l = 0..<N. a (tn ! l))
                   + 2 * cos beta * sin beta * (\<Sum>l = 0..<N. g l)"
    by (simp add: sum.distrib sum_distrib_left)
  also have "\<dots> = ((cos beta)\<^sup>2 + (sin beta)\<^sup>2) * (\<Sum>l = 0..<N. a l)"
    by (simp only: g0 a1 distrib_right mult_zero_right add_0_right)
  also have "\<dots> = norm_sq psi"
    by (simp add: norm_sq_nth assms(2) a_def)
  finally show ?thesis .
qed

lemma phase_norm:
  "cmod (\<Prod>i \<leftarrow> is. exp (- \<i> * complex_of_real (a i) * complex_of_real (b i))) = 1"
  by (induction "is") (simp_all add: norm_mult)

lemma apply_uc_result:
  assumes "length gammas \<le> length all_cuv_vals"
    and "list_all (\<lambda>r. length r = length psi) all_cuv_vals"
  shows "\<exists>psi1. apply_uc all_cuv_vals gammas psi = Inr psi1
           \<and> length psi1 = length psi \<and> norm_sq psi1 = norm_sq psi"
proof -
  let ?P = "\<lambda>l. (\<Prod>i \<leftarrow> [0..<length gammas].
                    exp (- \<i> * complex_of_real (gammas ! i)
                            * complex_of_real (all_cuv_vals ! i ! l)))"
  let ?psi1 = "map (\<lambda>l. ?P l * psi ! l) [0..<length psi]"
  have rows: "list_all (\<lambda>i. length (all_cuv_vals ! i) = length psi) [0..<length gammas]"
    using assms by (auto simp: list_all_length)
  have r: "apply_uc all_cuv_vals gammas psi = Inr ?psi1"
    using assms(1) rows by (simp add: apply_uc_def)
  have "norm_sq ?psi1 = (\<Sum>l = 0..<length psi. (cmod (?P l * psi ! l))\<^sup>2)"
    by (simp add: norm_sq_nth)
  also have "\<dots> = (\<Sum>l = 0..<length psi. (cmod (psi ! l))\<^sup>2)"
    by (rule sum.cong) (simp_all only: norm_mult phase_norm mult_1)
  finally have "norm_sq ?psi1 = norm_sq psi" by (simp add: norm_sq_nth)
  with r show ?thesis by simp
qed

lemma valid_tables_column:
  assumes "valid_tables N n neighbours basis_bin" "q < n"
  shows "valid_flip N (column neighbours q)" "valid_bits N (column basis_bin q)"
    "basis_bin \<noteq> []" "list_all (\<lambda>r. q < length r) basis_bin"
  using assms by (auto simp: valid_tables_def list_all_iff)

lemma valid_tables_shape:
  assumes "valid_tables N n neighbours basis_bin"
  shows "shape1 neighbours = Inr n"
proof -
  from assms obtain r rs where "neighbours = r # rs" "length r = n"
    by (cases neighbours) (auto simp: valid_tables_def)
  then show ?thesis by (simp add: shape1_def)
qed

lemma ub_loop_mixer:
  assumes "valid_tables N n neighbours basis_bin"
  shows "length psi = N \<Longrightarrow> \<forall>q \<in> set qs. q < n \<and> q < length betas
    \<Longrightarrow> ub_loop betas neighbours basis_bin psi qs = Inr (mixer betas neighbours psi qs)"
proof (induction qs arbitrary: psi)
  case Nil
  then show ?case by (simp add: mixer_def)
next
  case (Cons q qs)
  from Cons.prems have q: "q < n" "q < length betas" by simp_all
  note c = valid_tables_column [OF assms q(1)]
  have one: "apply_unitary_one_qubit (get_exp_x (betas ! q)) psi (column neighbours q)
               (column basis_bin q) = Inr (rotation (betas ! q) (column neighbours q) psi)"
    by (rule apply_unitary_one_qubit_rotation [OF c(1,2) Cons.prems(1)])
  have "ub_loop betas neighbours basis_bin (rotation (betas ! q) (column neighbours q) psi) qs
      = Inr (mixer betas neighbours (rotation (betas ! q) (column neighbours q) psi) qs)"
    using Cons.prems by (intro Cons.IH) simp_all
  then show ?case
    using q c(3,4) one by (simp add: mixer_def)
qed

lemma mixer_norm:
  assumes "valid_tables N n neighbours basis_bin"
  shows "length psi = N \<Longrightarrow> \<forall>q \<in> set qs. q < n
    \<Longrightarrow> length (mixer betas neighbours psi qs) = N
        \<and> norm_sq (mixer betas neighbours psi qs) = norm_sq psi"
proof (induction qs arbitrary: psi)
  case Nil
  then show ?case by (simp add: mixer_def)
next
  case (Cons q qs)
  from Cons.prems have q: "q < n" by simp
  note c = valid_tables_column [OF assms q]
  have "length (rotation (betas ! q) (column neighbours q) psi) = N"
    using Cons.prems(1) by simp
  moreover have "\<forall>q \<in> set qs. q < n" using Cons.prems(2) by simp
  ultimately have
    "length (mixer betas neighbours (rotation (betas ! q) (column neighbours q) psi) qs) = N
     \<and> norm_sq (mixer betas neighbours (rotation (betas ! q) (column neighbours q) psi) qs)
        = norm_sq (rotation (betas ! q) (column neighbours q) psi)"
    by (rule Cons.IH)
  then show ?case
    using rotation_norm [OF c(1) Cons.prems(1)] by (simp add: mixer_def)
qed

lemma apply_ub_individual_mixer:
  assumes "valid_tables N n neighbours basis_bin" "length psi = N" "n \<le> length betas"
  shows "apply_ub_individual betas psi neighbours basis_bin
           = Inr (mixer betas neighbours psi [0..<n])"
  using ub_loop_mixer [OF assms(1,2), of "[0..<n]" betas] assms(3)
  by (simp add: apply_ub_individual_def valid_tables_shape [OF assms(1)])

lemma layers_loop_norm:
  assumes "valid_tables N n neighbours basis_bin" "valid_terms N all_cuv_vals"
    and "length all_cuv_vals + n \<le> k"
  shows "length psi = N \<Longrightarrow> \<forall>i \<in> set is. (i + 1) * k \<le> length angles
    \<Longrightarrow> \<exists>psi1. layers_loop angles k all_cuv_vals neighbours basis_bin psi is = Inr psi1
             \<and> length psi1 = N \<and> norm_sq psi1 = norm_sq psi"
proof (induction "is" arbitrary: psi)
  case Nil
  then show ?case by simp
next
  case (Cons i rest)
  let ?layer = "take k (drop (i * k) angles)"
  let ?gammas = "take (length all_cuv_vals) ?layer"
  let ?betas = "drop (length all_cuv_vals) ?layer"
  from Cons.prems(2) have ik: "(i + 1) * k \<le> length angles" by simp
  then have ll: "length ?layer = k" by simp
  have rows: "list_all (\<lambda>r. length r = length psi) all_cuv_vals"
    using assms(2) Cons.prems(1) by (simp add: valid_terms_def)
  have "length ?gammas \<le> length all_cuv_vals" by simp
  from apply_uc_result [OF this rows] obtain psi1 where
    uc: "apply_uc all_cuv_vals ?gammas psi = Inr psi1"
    and l1: "length psi1 = N" and n1: "norm_sq psi1 = norm_sq psi"
    using Cons.prems(1) by auto
  have lb: "n \<le> length ?betas" using ll assms(3) by simp
  let ?psi2 = "mixer ?betas neighbours psi1 [0..<n]"
  have ub: "apply_ub_individual ?betas psi1 neighbours basis_bin = Inr ?psi2"
    by (rule apply_ub_individual_mixer [OF assms(1) l1 lb])
  have m: "length ?psi2 = N \<and> norm_sq ?psi2 = norm_sq psi1"
    by (rule mixer_norm [OF assms(1) l1]) simp
  from m have l2: "length ?psi2 = N" ..
  have "\<forall>i \<in> set rest. (i + 1) * k \<le> length angles" using Cons.prems(2) by simp
  from Cons.IH [OF l2 this] obtain psi3 where
    "layers_loop angles k all_cuv_vals neighbours basis_bin ?psi2 rest = Inr psi3"
    "length psi3 = N" "norm_sq psi3 = norm_sq ?psi2"
    by blast
  then show ?case
    using uc ub m n1 by (simp add: Let_def)
qed

lemma uniform_state_norm:
  assumes "0 < N"
  shows "length (uniform_state N) = N" "norm_sq (uniform_state N) = 1"
proof -
  show "length (uniform_state N) = N" by (simp add: uniform_state_def)
  have "(cmod (1 / complex_of_real (sqrt (real N))))\<^sup>2 = 1 / real N"
    using assms by (simp add: norm_divide power_divide)
  then show "norm_sq (uniform_state N) = 1"
    using assms by (simp add: norm_sq_def uniform_state_def sum_list_replicate)
qed

lemma layer_slices:
  assumes "j \<le> p" "i \<in> set [0..<j]"
  shows "(i + 1) * (m div p) \<le> (m :: nat)"
proof -
  from assms have "i + 1 \<le> p" by simp
  then have "(i + 1) * (m div p) \<le> p * (m div p)" by (rule mult_le_mono1)
  also have "\<dots> \<le> m" by simp
  finally show ?thesis .
qed

lemma valid_terms_shape:
  assumes "valid_terms N all_cuv_vals"
  shows "shape1 all_cuv_vals = Inr N"
proof -
  from assms obtain r rs where "all_cuv_vals = r # rs" "length r = N"
    by (cases all_cuv_vals) (auto simp: valid_terms_def)
  then show ?thesis by (simp add: shape1_def)
qed

text \<open>
  Claim C2. On well-formed tables (an involutive neighbour table, a bit-value table of
  bits, a term table of real rows over all labels), for a positive number of layers and
  a real angle vector that gives every layer at least one angle per term and per qubit,
  the simulation does not fail, and the state it has built after every layer, and at the
  end, has Euclidean norm 1.
\<close>

theorem simulation_unitary:
  assumes "valid_tables N n neighbours basis_bin" and "valid_terms N all_cuv_vals"
    and "0 < p" and "length all_cuv_vals + n \<le> length angles div nat p"
  shows "(\<forall>j \<le> nat p. \<exists>psi.
            layers_loop angles (length angles div nat p) all_cuv_vals neighbours basis_bin
              (uniform_state N) [0..<j] = Inr psi
            \<and> vec_norm psi = 1)
       \<and> (\<exists>y. run_ma_qaoa_simulation angles p all_cuv_vals neighbours basis_bin None = Inr y)"
proof -
  let ?k = "length angles div nat p"
  from assms(1) have N: "0 < N" by (simp add: valid_tables_def)
  have layers: "\<exists>psi. layers_loop angles ?k all_cuv_vals neighbours basis_bin
                        (uniform_state N) [0..<j] = Inr psi
                    \<and> length psi = N \<and> norm_sq psi = 1" if "j \<le> nat p" for j
  proof -
    have "\<forall>i \<in> set [0..<j]. (i + 1) * ?k \<le> length angles"
      using layer_slices [OF that] by blast
    from layers_loop_norm [OF assms(1,2,4) uniform_state_norm(1) [OF N] this]
    show ?thesis by (simp add: uniform_state_norm(2) [OF N])
  qed
  have first: "\<forall>j \<le> nat p. \<exists>psi.
            layers_loop angles ?k all_cuv_vals neighbours basis_bin (uniform_state N) [0..<j]
              = Inr psi \<and> vec_norm psi = 1"
    using layers by (auto simp: vec_norm_def)
  from layers [of "nat p"] obtain psi where
    psi: "layers_loop angles ?k all_cuv_vals neighbours basis_bin (uniform_state N) [0..<nat p]
            = Inr psi" "length psi = N"
    by auto
  have rows: "sum_rows all_cuv_vals [0..<length all_cuv_vals] N
      = Inr (map (\<lambda>l. \<Sum>e \<leftarrow> [0..<length all_cuv_vals]. all_cuv_vals ! e ! l) [0..<N])"
    by (simp add: sum_rows_def list_all_iff)
  have "\<exists>y. run_ma_qaoa_simulation angles p all_cuv_vals neighbours basis_bin None = Inr y"
    using assms(3) psi rows
    by (simp add: run_ma_qaoa_simulation_def valid_terms_shape [OF assms(2)]
        calc_expectation_diagonal_def)
  with first show ?thesis by blast
qed

lemma valid_tables_2: "valid_tables 4 2 neighbours_2 basis_bin_2"
  by (simp add: valid_tables_def valid_flip_def valid_bits_def column_def neighbours_2_def
      basis_bin_2_def upt_rec)

lemma valid_terms_2: "valid_terms 4 cuv_2"
  by (simp add: valid_terms_def cuv_2_def)

theorem simulation_unitary_witness:
  "(\<exists>psi. layers_loop [1, 2, 3] 3 cuv_2 neighbours_2 basis_bin_2 (uniform_state 4) [0..<1] = Inr psi
          \<and> vec_norm psi = 1)
   \<and> (\<exists>y. run_ma_qaoa_simulation [1, 2, 3] 1 cuv_2 neighbours_2 basis_bin_2 None = Inr y)"
proof -
  have p: "(0 :: int) < 1" by simp
  have l: "length cuv_2 + 2 \<le> length [1, 2, 3 :: real] div nat 1"
    by (simp add: cuv_2_def)
  have k: "length [1, 2, 3 :: real] div nat 1 = 3" "nat 1 = 1" "length [1, 2, 3 :: real] div 1 = 3"
    by simp_all
  note t = simulation_unitary [OF valid_tables_2 valid_terms_2 p l, unfolded k]
  from t have a: "\<forall>j \<le> 1. \<exists>psi.
      layers_loop [1, 2, 3] 3 cuv_2 neighbours_2 basis_bin_2 (uniform_state 4) [0..<j] = Inr psi
      \<and> vec_norm psi = 1" ..
  from t have b: "\<exists>y. run_ma_qaoa_simulation [1, 2, 3] 1 cuv_2 neighbours_2 basis_bin_2 None = Inr y" ..
  from a [rule_format, OF le_refl] b show ?thesis ..
qed

lemma rotation_nth:
  "l < length psi \<Longrightarrow> rotation beta tn psi ! l
     = complex_of_real (cos beta) * psi ! l
       + (- \<i> * complex_of_real (sin beta)) * psi ! (tn ! l)"
  unfolding rotation_def by (simp only: nth_map length_upt nth_upt) simp

lemma cos_sin_complex:
  "complex_of_real (cos b) * complex_of_real (cos b)
     + complex_of_real (sin b) * complex_of_real (sin b) = 1"
  by (simp only: of_real_mult [symmetric] of_real_add [symmetric] sin_cos_squared_add3 of_real_1)

lemma rotation_inverse:
  assumes "valid_flip N tn" "length psi = N"
  shows "rotation (- beta) tn (rotation beta tn psi) = psi"
proof (rule nth_equalityI)
  show "length (rotation (- beta) tn (rotation beta tn psi)) = length psi" by simp
next
  fix l assume "l < length (rotation (- beta) tn (rotation beta tn psi))"
  then have l: "l < N" using assms(2) by simp
  note f = valid_flip_D [OF assms(1) l]
  have "rotation (- beta) tn (rotation beta tn psi) ! l
      = (complex_of_real (cos beta) * complex_of_real (cos beta)
         + complex_of_real (sin beta) * complex_of_real (sin beta)) * psi ! l"
    using l f assms(2) by (simp add: rotation_nth algebra_simps)
  then show "rotation (- beta) tn (rotation beta tn psi) ! l = psi ! l"
    by (simp only: cos_sin_complex mult_1)
qed

lemma rotation_commute:
  assumes "valid_flip N tn1" "valid_flip N tn2" "length psi = N"
    and "\<forall>l < N. tn1 ! (tn2 ! l) = tn2 ! (tn1 ! l)"
  shows "rotation a tn1 (rotation b tn2 psi) = rotation b tn2 (rotation a tn1 psi)"
proof (rule nth_equalityI)
  show "length (rotation a tn1 (rotation b tn2 psi)) = length (rotation b tn2 (rotation a tn1 psi))"
    by simp
next
  fix l assume "l < length (rotation a tn1 (rotation b tn2 psi))"
  then have l: "l < N" using assms(3) by simp
  note f1 = valid_flip_D [OF assms(1) l] and f2 = valid_flip_D [OF assms(2) l]
  from assms(4) l have c: "tn1 ! (tn2 ! l) = tn2 ! (tn1 ! l)" by simp
  show "rotation a tn1 (rotation b tn2 psi) ! l = rotation b tn2 (rotation a tn1 psi) ! l"
    using l f1(1) f2(1) assms(3) by (simp add: rotation_nth c algebra_simps)
qed

lemma consistent_tables_D:
  assumes "consistent_tables N n neighbours basis_bin" "l < N" "q < n" "r < n"
  shows "basis_bin ! (neighbours ! l ! q) ! r
           = (if r = q then 1 - basis_bin ! l ! r else basis_bin ! l ! r)"
  using assms by (simp add: consistent_tables_def list_all_iff)

lemma column_nth:
  "l < length a \<Longrightarrow> column a q ! l = a ! l ! q"
  by (simp add: column_def)

lemma reach_pattern:
  assumes v: "valid_tables N n neighbours basis_bin"
    and c: "consistent_tables N n neighbours basis_bin"
    and t: "length t = n" "set t \<subseteq> {0, 1}"
  shows "k \<le> n \<Longrightarrow> \<exists>l < N. \<forall>r < n. basis_bin ! l ! r = (if r < k then t ! r else basis_bin ! 0 ! r)"
proof (induction k)
  case 0
  from v have "0 < N" by (simp add: valid_tables_def)
  then show ?case by auto
next
  case (Suc k)
  then have k: "k < n" by simp
  from Suc obtain l where l: "l < N"
    and bl: "\<forall>r < n. basis_bin ! l ! r = (if r < k then t ! r else basis_bin ! 0 ! r)"
    by auto
  from v have len: "length neighbours = N" "length basis_bin = N"
    by (auto simp: valid_tables_def)
  have bit: "basis_bin ! l ! k < 2"
    using valid_tables_column(2) [OF v k] l len
    by (auto simp: valid_bits_def list_all_length column_def)
  have "t ! k \<in> set t" using t(1) k by simp
  with t(2) have "t ! k = 0 \<or> t ! k = 1" by blast
  then have tk: "t ! k < 2" by auto
  show ?case
  proof (cases "basis_bin ! l ! k = t ! k")
    case True
    have "\<forall>r < n. basis_bin ! l ! r = (if r < Suc k then t ! r else basis_bin ! 0 ! r)"
      using bl True by (auto simp: less_Suc_eq)
    with l show ?thesis by blast
  next
    case False
    let ?l' = "neighbours ! l ! k"
    have l': "?l' < N"
      using valid_flip_D(1) [OF valid_tables_column(1) [OF v k] l] l len
      by (simp add: column_def)
    have flip: "1 - basis_bin ! l ! k = t ! k" using False bit tk by auto
    have "\<forall>r < n. basis_bin ! ?l' ! r = (if r < Suc k then t ! r else basis_bin ! 0 ! r)"
    proof (intro allI impI)
      fix r assume r: "r < n"
      show "basis_bin ! ?l' ! r = (if r < Suc k then t ! r else basis_bin ! 0 ! r)"
        using consistent_tables_D [OF c l k r] bl r flip by (auto simp: less_Suc_eq)
    qed
    with l' show ?thesis by blast
  qed
qed

lemma rows_distinct:
  assumes v: "valid_tables N n neighbours basis_bin"
    and c: "consistent_tables N n neighbours basis_bin"
    and N: "N = 2 ^ n"
  shows "distinct basis_bin"
proof -
  let ?B = "{xs :: nat list. set xs \<subseteq> {0, 1} \<and> length xs = n}"
  from v have len: "length basis_bin = N"
    and rows: "\<And>l. l < N \<Longrightarrow> length (basis_bin ! l) = n"
    by (auto simp: valid_tables_def list_all_length)
  have "?B \<subseteq> set basis_bin"
  proof
    fix t assume "t \<in> ?B"
    then have t: "length t = n" "set t \<subseteq> {0, 1}" by auto
    from reach_pattern [OF v c t le_refl] obtain l where
      l: "l < N" and b: "\<forall>r < n. basis_bin ! l ! r = t ! r" by auto
    have "basis_bin ! l = t"
      by (rule nth_equalityI) (use rows [OF l] t(1) b in auto)
    with l len show "t \<in> set basis_bin" by auto
  qed
  then have 1: "card ?B \<le> card (set basis_bin)"
    by (rule card_mono [OF finite_set])
  have "card ?B = card {0, 1 :: nat} ^ n"
    by (rule card_lists_length_eq) simp
  moreover have "card {0, 1 :: nat} = 2" by simp
  ultimately have 2: "card ?B = 2 ^ n" by (simp only:)
  have 3: "card (set basis_bin) \<le> length basis_bin" by (rule card_length)
  from 1 2 3 len N have "card (set basis_bin) = length basis_bin" by linarith
  then show ?thesis by (rule card_distinct)
qed

lemma flips_commute:
  assumes v: "valid_tables N n neighbours basis_bin"
    and c: "consistent_tables N n neighbours basis_bin"
    and d: "distinct basis_bin"
    and q: "q < n" and r: "r < n" and l: "l < N"
  shows "column neighbours q ! (column neighbours r ! l)
           = column neighbours r ! (column neighbours q ! l)"
proof (cases "q = r")
  case True
  then show ?thesis by simp
next
  case False
  from v have len: "length neighbours = N" "length basis_bin = N"
    and rows: "\<And>k. k < N \<Longrightarrow> length (basis_bin ! k) = n"
    by (auto simp: valid_tables_def list_all_length)
  define lq where "lq = neighbours ! l ! q"
  define lr where "lr = neighbours ! l ! r"
  define lqr where "lqr = neighbours ! lq ! r"
  define lrq where "lrq = neighbours ! lr ! q"
  have lq: "lq < N" using valid_flip_D(1) [OF valid_tables_column(1) [OF v q] l] l len
    by (simp add: lq_def column_nth)
  have lr: "lr < N" using valid_flip_D(1) [OF valid_tables_column(1) [OF v r] l] l len
    by (simp add: lr_def column_nth)
  have lqr: "lqr < N" using valid_flip_D(1) [OF valid_tables_column(1) [OF v r] lq] lq len
    by (simp add: lqr_def column_nth)
  have lrq: "lrq < N" using valid_flip_D(1) [OF valid_tables_column(1) [OF v q] lr] lr len
    by (simp add: lrq_def column_nth)
  have "basis_bin ! lqr = basis_bin ! lrq"
  proof (rule nth_equalityI)
    show "length (basis_bin ! lqr) = length (basis_bin ! lrq)"
      using rows lqr lrq by simp
  next
    fix t assume "t < length (basis_bin ! lqr)"
    then have t: "t < n" using rows lqr by simp
    have "basis_bin ! lqr ! t
        = (if t = r then 1 - basis_bin ! lq ! t else basis_bin ! lq ! t)"
      unfolding lqr_def by (rule consistent_tables_D [OF c lq r t])
    moreover have "basis_bin ! lq ! t
        = (if t = q then 1 - basis_bin ! l ! t else basis_bin ! l ! t)"
      unfolding lq_def by (rule consistent_tables_D [OF c l q t])
    moreover have "basis_bin ! lrq ! t
        = (if t = q then 1 - basis_bin ! lr ! t else basis_bin ! lr ! t)"
      unfolding lrq_def by (rule consistent_tables_D [OF c lr q t])
    moreover have "basis_bin ! lr ! t
        = (if t = r then 1 - basis_bin ! l ! t else basis_bin ! l ! t)"
      unfolding lr_def by (rule consistent_tables_D [OF c l r t])
    ultimately show "basis_bin ! lqr ! t = basis_bin ! lrq ! t"
      using False by (cases "t = q"; cases "t = r") simp_all
  qed
  moreover note d
  ultimately have "lqr = lrq"
    using lqr lrq len by (simp add: nth_eq_iff_index_eq)
  then show ?thesis
    using l lq lr len by (simp add: column_nth lq_def lr_def lqr_def lrq_def)
qed

lemma mixer_Cons:
  "mixer betas neighbours psi (q # qs)
     = mixer betas neighbours (rotation (betas ! q) (column neighbours q) psi) qs"
  by (simp add: mixer_def)

lemma rotation_mixer_commute:
  assumes v: "valid_tables N n neighbours basis_bin"
    and c: "consistent_tables N n neighbours basis_bin"
    and d: "distinct basis_bin" and q: "q < n"
  shows "length psi = N \<Longrightarrow> \<forall>r \<in> set qs. r < n
    \<Longrightarrow> rotation x (column neighbours q) (mixer betas neighbours psi qs)
          = mixer betas neighbours (rotation x (column neighbours q) psi) qs"
proof (induction qs arbitrary: psi)
  case Nil
  then show ?case by (simp add: mixer_def)
next
  case (Cons r qs)
  from Cons.prems have r: "r < n" and rest: "\<forall>r \<in> set qs. r < n" by simp_all
  let ?tq = "column neighbours q" and ?tr = "column neighbours r"
  have lr: "length (rotation (betas ! r) ?tr psi) = N" using Cons.prems(1) by simp
  have com: "\<forall>l < N. ?tq ! (?tr ! l) = ?tr ! (?tq ! l)"
    using flips_commute [OF v c d q r] by blast
  have "rotation x ?tq (mixer betas neighbours psi (r # qs))
      = mixer betas neighbours (rotation x ?tq (rotation (betas ! r) ?tr psi)) qs"
    unfolding mixer_Cons by (rule Cons.IH [OF lr rest])
  also have "rotation x ?tq (rotation (betas ! r) ?tr psi)
      = rotation (betas ! r) ?tr (rotation x ?tq psi)"
    by (rule rotation_commute [OF valid_tables_column(1) [OF v q]
          valid_tables_column(1) [OF v r] Cons.prems(1) com])
  finally show ?case by (simp only: mixer_Cons)
qed

lemma mixer_inverse:
  assumes v: "valid_tables N n neighbours basis_bin"
    and c: "consistent_tables N n neighbours basis_bin"
    and d: "distinct basis_bin"
  shows "length psi = N \<Longrightarrow> \<forall>q \<in> set qs. q < n \<and> q < length betas
    \<Longrightarrow> mixer (map uminus betas) neighbours (mixer betas neighbours psi qs) qs = psi"
proof (induction qs arbitrary: psi)
  case Nil
  then show ?case by (simp add: mixer_def)
next
  case (Cons q qs)
  from Cons.prems have q: "q < n" "q < length betas"
    and rest: "\<forall>q \<in> set qs. q < n \<and> q < length betas" by simp_all
  from rest have rest_n: "\<forall>r \<in> set qs. r < n" by simp
  let ?tq = "column neighbours q"
  let ?phi = "rotation (betas ! q) ?tq psi"
  have lphi: "length ?phi = N" using Cons.prems(1) by simp
  have neg: "map uminus betas ! q = - (betas ! q)" using q(2) by simp
  have "mixer (map uminus betas) neighbours (mixer betas neighbours psi (q # qs)) (q # qs)
      = mixer (map uminus betas) neighbours
          (rotation (- (betas ! q)) ?tq (mixer betas neighbours ?phi qs)) qs"
    by (simp only: mixer_Cons neg)
  also have "rotation (- (betas ! q)) ?tq (mixer betas neighbours ?phi qs)
      = mixer betas neighbours (rotation (- (betas ! q)) ?tq ?phi) qs"
    by (rule rotation_mixer_commute [OF v c d q(1) lphi rest_n])
  also have "rotation (- (betas ! q)) ?tq ?phi = psi"
    by (rule rotation_inverse [OF valid_tables_column(1) [OF v q(1)] Cons.prems(1)])
  also have "mixer (map uminus betas) neighbours (mixer betas neighbours psi qs) qs = psi"
    by (rule Cons.IH [OF Cons.prems(1) rest])
  finally show ?case .
qed

text \<open>
  Claim C8. On well-formed tables over the \<open>2 ^ n\<close> labels of \<open>n\<close> qubits whose
  bit-value table is consistent with the neighbour table, for every state vector over the
  labels and every real beta vector with an angle per qubit, the mixer layer with the
  angles \<open>betas\<close> followed by the mixer layer with the angles \<open>-betas\<close> succeeds and
  gives back the state vector it started from.
\<close>

theorem mixer_undone:
  assumes "valid_tables N n neighbours basis_bin"
    and "consistent_tables N n neighbours basis_bin"
    and "length psi = N" and "n \<le> length betas" and "N = 2 ^ n"
  shows "\<exists>psi1. apply_ub_individual betas psi neighbours basis_bin = Inr psi1
           \<and> apply_ub_individual (map uminus betas) psi1 neighbours basis_bin = Inr psi"
proof -
  let ?psi1 = "mixer betas neighbours psi [0..<n]"
  have 1: "apply_ub_individual betas psi neighbours basis_bin = Inr ?psi1"
    by (rule apply_ub_individual_mixer [OF assms(1,3,4)])
  have l1: "length ?psi1 = N"
    using mixer_norm [OF assms(1,3), of "[0..<n]" betas] by simp
  have "n \<le> length (map uminus betas)" using assms(4) by simp
  from apply_ub_individual_mixer [OF assms(1) l1 this]
  have 2: "apply_ub_individual (map uminus betas) ?psi1 neighbours basis_bin
             = Inr (mixer (map uminus betas) neighbours ?psi1 [0..<n])" .
  have d: "distinct basis_bin"
    by (rule rows_distinct [OF assms(1,2,5)])
  have "mixer (map uminus betas) neighbours ?psi1 [0..<n] = psi"
    using assms(4) by (intro mixer_inverse [OF assms(1,2) d assms(3)]) simp
  with 1 2 show ?thesis by simp
qed

lemma consistent_tables_2: "consistent_tables 4 2 neighbours_2 basis_bin_2"
  by (simp add: consistent_tables_def neighbours_2_def basis_bin_2_def upt_rec)

theorem mixer_undone_witness:
  "\<exists>psi1. apply_ub_individual [1, 2] [1, 0, 0, 0] neighbours_2 basis_bin_2 = Inr psi1
     \<and> apply_ub_individual (map uminus [1, 2]) psi1 neighbours_2 basis_bin_2 = Inr [1, 0, 0, 0]"
proof -
  have l: "length [1, 0, 0, 0 :: complex] = 4" "2 \<le> length [1, 2 :: real]"
    "(4 :: nat) = 2 ^ 2" by simp_all
  from mixer_undone [OF valid_tables_2 consistent_tables_2 l] show ?thesis .
qed

section \<open>The simulation on concrete tables and on surplus angles\<close>

lemma rotation_zero: "rotation 0 tn psi = psi"
  by (simp add: rotation_def map_nth)

lemma mixer_zero: "\<forall>q \<in> set qs. betas ! q = 0 \<Longrightarrow> mixer betas neighbours psi qs = psi"
  by (induction qs arbitrary: psi) (simp_all add: mixer_def rotation_zero)

lemma prod_list_ones: "prod_list (map (\<lambda>i. 1) xs) = (1 :: complex)"
  by (induction xs) simp_all

lemma apply_uc_zero:
  assumes "length gammas \<le> length all_cuv_vals"
    and "list_all (\<lambda>r. length r = length psi) all_cuv_vals"
    and "\<forall>g \<in> set gammas. g = 0"
  shows "apply_uc all_cuv_vals gammas psi = Inr psi"
proof -
  have rows: "list_all (\<lambda>i. length (all_cuv_vals ! i) = length psi) [0..<length gammas]"
    using assms(1,2) by (auto simp: list_all_length)
  have one: "(\<Prod>i \<leftarrow> [0..<length gammas].
                exp (- \<i> * complex_of_real (gammas ! i) * complex_of_real (all_cuv_vals ! i ! l)))
             = 1" for l
  proof -
    have "map (\<lambda>i. exp (- \<i> * complex_of_real (gammas ! i)
                               * complex_of_real (all_cuv_vals ! i ! l))) [0..<length gammas]
        = map (\<lambda>i. 1) [0..<length gammas]"
    proof (rule map_cong [OF refl])
      fix i assume "i \<in> set [0..<length gammas]"
      then have "gammas ! i = 0" using assms(3) by simp
      then show "exp (- \<i> * complex_of_real (gammas ! i)
                        * complex_of_real (all_cuv_vals ! i ! l)) = 1"
        by simp
    qed
    then show ?thesis by (simp only: prod_list_ones)
  qed
  have "map (\<lambda>l. (\<Prod>i \<leftarrow> [0..<length gammas].
                        exp (- \<i> * complex_of_real (gammas ! i)
                                * complex_of_real (all_cuv_vals ! i ! l)))
                    * psi ! l) [0..<length psi] = psi"
    by (simp only: one mult_1 map_nth)
  then show ?thesis
    unfolding apply_uc_def using assms(1) rows by (simp only: if_False not_less not_not) simp
qed

lemma simulation_zero_angles:
  assumes "length angles = 3 \<or> length angles = 4" "\<forall>a \<in> set angles. a = 0"
  shows "run_ma_qaoa_simulation angles 1 cuv_2 neighbours_2 basis_bin_2 None = Inr (1 / 2)"
proof -
  let ?psi = "uniform_state 4"
  let ?layer = "take (length angles) (drop 0 angles)"
  have lpsi: "length ?psi = 4" by (simp add: uniform_state_def)
  have uc: "apply_uc cuv_2 (take (length cuv_2) ?layer) ?psi = Inr ?psi"
    using assms(2) by (intro apply_uc_zero) (auto simp: cuv_2_def lpsi dest: in_set_takeD)
  have lb: "2 \<le> length (drop (length cuv_2) ?layer)"
    using assms(1) by (auto simp: cuv_2_def)
  have z: "\<forall>q \<in> set [0..<2]. drop (length cuv_2) ?layer ! q = 0"
    using assms by (auto simp: cuv_2_def)
  have ub: "apply_ub_individual (drop (length cuv_2) ?layer) ?psi neighbours_2 basis_bin_2
              = Inr ?psi"
    using apply_ub_individual_mixer [OF valid_tables_2 lpsi lb] mixer_zero [OF z] by simp
  have layers: "layers_loop angles (length angles div nat 1) cuv_2 neighbours_2 basis_bin_2 ?psi
                  [0..<nat 1] = Inr ?psi"
    using uc ub by (simp add: Let_def)
  have rows: "sum_rows cuv_2 [0..<length cuv_2] 4 = Inr [0, 1, 1, 0]"
    by (simp add: sum_rows_def cuv_2_def upt_rec)
  have e: "calc_expectation_diagonal ?psi [0, 1, 1, 0] = Inr (1 / 2)"
    by (simp add: calc_expectation_diagonal_def uniform_state_def upt_rec
        eval_nat_numeral)
  have s: "shape1 cuv_2 = Inr 4" by (simp add: shape1_def cuv_2_def)
  show ?thesis
    unfolding run_ma_qaoa_simulation_def
    by (simp only: s layers rows e Let_def option.case sum.case) simp
qed

lemma preprocessing_single_edge:
  "preprocessing (single_edge w) None = Inr (cuv_2, neighbours_2, basis_bin_2, None)"
  by (simp add: preprocessing_def single_edge_def get_neighbour_labelings_def
      get_all_binary_labelings_def check_edge_cut_def cuv_2_def neighbours_2_def
      basis_bin_2_def upt_rec)

lemma ub_loop_betas_cong:
  "\<forall>q \<in> set qs. q < length b1 \<and> q < length b2 \<and> b1 ! q = b2 ! q
   \<Longrightarrow> ub_loop b1 neighbours basis_bin psi qs = ub_loop b2 neighbours basis_bin psi qs"
proof (induction qs arbitrary: psi)
  case Nil
  then show ?case by simp
next
  case (Cons q qs)
  from Cons.prems have q: "q < length b1" "q < length b2" "b1 ! q = b2 ! q"
    and rest: "\<forall>q \<in> set qs. q < length b1 \<and> q < length b2 \<and> b1 ! q = b2 ! q"
    by simp_all
  show ?case
    using q Cons.IH [OF rest] by (simp add: Let_def split: sum.splits)
qed

lemma apply_ub_individual_cong:
  assumes "shape1 neighbours = Inr n" "n \<le> length b1" "n \<le> length b2" "take n b1 = take n b2"
  shows "apply_ub_individual b1 psi neighbours basis_bin
           = apply_ub_individual b2 psi neighbours basis_bin"
proof -
  have "\<forall>q \<in> set [0..<n]. q < length b1 \<and> q < length b2 \<and> b1 ! q = b2 ! q"
  proof
    fix q assume "q \<in> set [0..<n]"
    then have q: "q < n" by simp
    have "take n b1 ! q = take n b2 ! q" using assms(4) by simp
    with q assms(2,3) show "q < length b1 \<and> q < length b2 \<and> b1 ! q = b2 ! q" by simp
  qed
  from ub_loop_betas_cong [OF this] show ?thesis
    by (simp add: apply_ub_individual_def assms(1))
qed

lemma layers_loop_cong:
  assumes "shape1 neighbours = Inr n"
  shows "\<forall>i \<in> set is.
      take (length all_cuv_vals) (take k (drop (i * k) angles))
        = take (length all_cuv_vals) (take k' (drop (i * k') angles'))
      \<and> n \<le> length (drop (length all_cuv_vals) (take k (drop (i * k) angles)))
      \<and> n \<le> length (drop (length all_cuv_vals) (take k' (drop (i * k') angles')))
      \<and> take n (drop (length all_cuv_vals) (take k (drop (i * k) angles)))
          = take n (drop (length all_cuv_vals) (take k' (drop (i * k') angles')))
   \<Longrightarrow> layers_loop angles k all_cuv_vals neighbours basis_bin psi is
       = layers_loop angles' k' all_cuv_vals neighbours basis_bin psi is"
proof (induction "is" arbitrary: psi)
  case Nil
  then show ?case by simp
next
  case (Cons i rest)
  let ?E = "length all_cuv_vals"
  from Cons.prems have
    g: "take ?E (take k (drop (i * k) angles)) = take ?E (take k' (drop (i * k') angles'))"
    and b: "n \<le> length (drop ?E (take k (drop (i * k) angles)))"
      "n \<le> length (drop ?E (take k' (drop (i * k') angles')))"
      "take n (drop ?E (take k (drop (i * k) angles)))
         = take n (drop ?E (take k' (drop (i * k') angles')))"
    by simp_all
  have ub: "apply_ub_individual (drop ?E (take k (drop (i * k) angles))) phi neighbours basis_bin
      = apply_ub_individual (drop ?E (take k' (drop (i * k') angles'))) phi neighbours basis_bin"
    for phi
    by (rule apply_ub_individual_cong [OF assms b])
  have rest: "layers_loop angles k all_cuv_vals neighbours basis_bin phi rest
      = layers_loop angles' k' all_cuv_vals neighbours basis_bin phi rest" for phi
    using Cons.prems by (intro Cons.IH) simp
  show ?case
    unfolding layers_loop.simps Let_def g ub rest ..
qed

lemma concat_chunk:
  "\<forall>xs \<in> set xss. length xs = m \<Longrightarrow> i < length xss
   \<Longrightarrow> take m (drop (i * m) (concat xss)) = xss ! i"
proof (induction xss arbitrary: i)
  case Nil
  then show ?case by simp
next
  case (Cons xs xss)
  show ?case
  proof (cases i)
    case 0
    with Cons.prems show ?thesis by simp
  next
    case (Suc j)
    with Cons.prems have "take m (drop (j * m) (concat xss)) = xss ! j"
      by (intro Cons.IH) simp_all
    with Cons.prems Suc show ?thesis by simp
  qed
qed

lemma length_concat_chunks:
  "\<forall>xs \<in> set xss. length xs = m \<Longrightarrow> length (concat xss) = length xss * m"
  by (induction xss) simp_all

lemma used_angles_facts:
  assumes "0 < P" "m \<le> length angles div P"
  shows "length (used_angles angles (length angles div P) m P) = P * m"
    and "i < P \<Longrightarrow> take m (drop (i * m) (used_angles angles (length angles div P) m P))
                    = take m (drop (i * (length angles div P)) angles)"
proof -
  let ?k = "length angles div P"
  let ?xss = "map (\<lambda>i. take m (drop (i * ?k) angles)) [0..<P]"
  have chunk: "length (take m (drop (i * ?k) angles)) = m" if "i < P" for i
  proof -
    from that have "i + 1 \<le> P" by simp
    then have "(i + 1) * ?k \<le> P * ?k" by (rule mult_le_mono1)
    also have "\<dots> \<le> length angles" by simp
    finally have "i * ?k + m \<le> length angles" using assms(2) by simp
    then show ?thesis by simp
  qed
  then have all: "\<forall>xs \<in> set ?xss. length xs = m" by auto
  from length_concat_chunks [OF all]
  show "length (used_angles angles ?k m P) = P * m" by (simp add: used_angles_def)
  assume i: "i < P"
  then have "i < length ?xss" by simp
  from concat_chunk [OF all this] i
  show "take m (drop (i * m) (used_angles angles ?k m P)) = take m (drop (i * ?k) angles)"
    by (simp add: used_angles_def)
qed

lemma take_drop_prefix:
  "E + n \<le> k \<Longrightarrow> take n (drop E (take k ys)) = take n (drop E (take (E + n) ys))"
  by (simp add: take_drop min_def add.commute)

lemma take_take_prefix:
  "E + n \<le> k \<Longrightarrow> take E (take k ys) = take E (take (E + n) ys)"
  by (simp add: min_def)

lemma simulation_returns:
  assumes "valid_tables N n neighbours basis_bin" and "valid_terms N all_cuv_vals"
    and "0 < p" and "length all_cuv_vals + n \<le> length angles div nat p"
  shows "\<exists>y. run_ma_qaoa_simulation angles p all_cuv_vals neighbours basis_bin None = Inr y"
proof -
  let ?k = "length angles div nat p"
  from assms(1) have N: "0 < N" by (simp add: valid_tables_def)
  have "\<forall>i \<in> set [0..<nat p]. (i + 1) * ?k \<le> length angles"
    using layer_slices [OF le_refl] by blast
  from layers_loop_norm [OF assms(1,2,4) uniform_state_norm(1) [OF N] this]
  obtain psi where
    psi: "layers_loop angles ?k all_cuv_vals neighbours basis_bin (uniform_state N) [0..<nat p]
            = Inr psi" "length psi = N"
    by auto
  have rows: "sum_rows all_cuv_vals [0..<length all_cuv_vals] N
      = Inr (map (\<lambda>l. \<Sum>e \<leftarrow> [0..<length all_cuv_vals]. all_cuv_vals ! e ! l) [0..<N])"
    by (simp add: sum_rows_def list_all_iff)
  show ?thesis
    using assms(3) psi rows
    by (simp add: run_ma_qaoa_simulation_def valid_terms_shape [OF assms(2)]
        calc_expectation_diagonal_def)
qed

text \<open>
  Claim C3, as amended. The simulation does not check the length of the angle vector.
  For a positive number of layers \<open>p\<close>, each layer gets the share of
  \<open>len(angles) div p\<close> angles; when that share holds at least one angle per term and
  per qubit, the call returns what it returns on the vector cut down to the leading
  angles of each share that it reads, so surplus angles are ignored without an error;
  and on well-formed tables what it returns is a value.
\<close>

theorem surplus_angles_ignored:
  assumes "0 < p" and "shape1 neighbours = Inr n"
    and "length all_cuv_vals + n \<le> length angles div nat p"
  shows "run_ma_qaoa_simulation angles p all_cuv_vals neighbours basis_bin edge_inds
           = run_ma_qaoa_simulation
               (used_angles angles (length angles div nat p) (length all_cuv_vals + n) (nat p))
               p all_cuv_vals neighbours basis_bin edge_inds
       \<and> (valid_tables N n neighbours basis_bin \<and> valid_terms N all_cuv_vals
          \<longrightarrow> (\<exists>y. run_ma_qaoa_simulation angles p all_cuv_vals neighbours basis_bin None
                     = Inr y))"
proof (intro conjI impI)
  let ?P = "nat p"
  let ?k = "length angles div ?P"
  let ?E = "length all_cuv_vals"
  let ?m = "?E + n"
  let ?used = "used_angles angles ?k ?m ?P"
  from assms(1) have P: "0 < ?P" by simp
  note u = used_angles_facts [OF P assms(3)]
  have k': "length ?used div ?P = ?m" using u(1) P by simp
  have "\<forall>i \<in> set [0..<?P].
      take ?E (take ?k (drop (i * ?k) angles)) = take ?E (take ?m (drop (i * ?m) ?used))
      \<and> n \<le> length (drop ?E (take ?k (drop (i * ?k) angles)))
      \<and> n \<le> length (drop ?E (take ?m (drop (i * ?m) ?used)))
      \<and> take n (drop ?E (take ?k (drop (i * ?k) angles)))
          = take n (drop ?E (take ?m (drop (i * ?m) ?used)))"
  proof
    fix i assume "i \<in> set [0..<?P]"
    then have i: "i < ?P" by simp
    let ?X = "drop (i * ?k) angles"
    have c: "take ?m (drop (i * ?m) ?used) = take ?m ?X" by (rule u(2) [OF i])
    from i have "i + 1 \<le> ?P" by simp
    then have "(i + 1) * ?k \<le> ?P * ?k" by (rule mult_le_mono1)
    also have "\<dots> \<le> length angles" by simp
    finally have lX: "?k \<le> length ?X" by simp
    have g: "take ?E (take ?k ?X) = take ?E (take ?m ?X)"
      by (rule take_take_prefix [OF assms(3)])
    have b1: "n \<le> length (drop ?E (take ?k ?X))" using lX assms(3) by simp
    have b2: "n \<le> length (drop ?E (take ?m ?X))" using lX assms(3) by simp
    have b3: "take n (drop ?E (take ?k ?X)) = take n (drop ?E (take ?m ?X))"
      by (rule take_drop_prefix [OF assms(3)])
    show "take ?E (take ?k (drop (i * ?k) angles)) = take ?E (take ?m (drop (i * ?m) ?used))
      \<and> n \<le> length (drop ?E (take ?k (drop (i * ?k) angles)))
      \<and> n \<le> length (drop ?E (take ?m (drop (i * ?m) ?used)))
      \<and> take n (drop ?E (take ?k (drop (i * ?k) angles)))
          = take n (drop ?E (take ?m (drop (i * ?m) ?used)))"
      unfolding c using g b1 b2 b3 by blast
  qed
  from layers_loop_cong [OF assms(2) this]
  have eq: "layers_loop angles ?k all_cuv_vals neighbours basis_bin psi [0..<?P]
      = layers_loop ?used ?m all_cuv_vals neighbours basis_bin psi [0..<?P]" for psi .
  show "run_ma_qaoa_simulation angles p all_cuv_vals neighbours basis_bin edge_inds
           = run_ma_qaoa_simulation ?used p all_cuv_vals neighbours basis_bin edge_inds"
    unfolding run_ma_qaoa_simulation_def k' Let_def eq ..
next
  assume "valid_tables N n neighbours basis_bin \<and> valid_terms N all_cuv_vals"
  then show "\<exists>y. run_ma_qaoa_simulation angles p all_cuv_vals neighbours basis_bin None = Inr y"
    using simulation_returns assms(1,3) by blast
qed

theorem surplus_angles_ignored_witness:
  "run_ma_qaoa_simulation [0, 0, 0, 7] 1 cuv_2 neighbours_2 basis_bin_2 None
     = run_ma_qaoa_simulation [0, 0, 0] 1 cuv_2 neighbours_2 basis_bin_2 None
   \<and> (\<exists>y. run_ma_qaoa_simulation [0, 0, 0, 7] 1 cuv_2 neighbours_2 basis_bin_2 None = Inr y)"
proof -
  have p: "(0 :: int) < 1" by simp
  have s: "shape1 neighbours_2 = Inr 2" by (simp add: shape1_def neighbours_2_def)
  have l: "length cuv_2 + 2 \<le> length [0, 0, 0, 7 :: real] div nat 1" by (simp add: cuv_2_def)
  have u: "used_angles [0, 0, 0, 7] (length [0, 0, 0, 7 :: real] div nat 1) (length cuv_2 + 2) (nat 1)
             = [0, 0, 0]"
    by (simp add: used_angles_def cuv_2_def)
  from surplus_angles_ignored [OF p s l, of basis_bin_2 None 4] valid_tables_2 valid_terms_2
  show ?thesis unfolding u by blast
qed

text \<open>
  Claim C3 as stated fails: with one term and two qubits, an angle vector of four
  entries does not have the length \<open>(1 + 2) * 1\<close>, and the simulation with one layer
  returns the value \<open>1 / 2\<close> for it.
\<close>

theorem length_unchecked_counterexample:
  "length [0, 0, 0, 0 :: real] \<noteq> (length cuv_2 + 2) * 1
   \<and> run_ma_qaoa_simulation [0, 0, 0, 0] 1 cuv_2 neighbours_2 basis_bin_2 None = Inr (1 / 2)"
proof -
  have "run_ma_qaoa_simulation [0, 0, 0, 0] 1 cuv_2 neighbours_2 basis_bin_2 None = Inr (1 / 2)"
    by (rule simulation_zero_angles) simp_all
  then show ?thesis by (simp add: cuv_2_def)
qed

text \<open>
  Claim C1 fails on the code at a weighted graph. For the graph of one edge of weight 2
  the preprocessing of the driver builds the term table of the cut indicator, which does
  not see the weight; at the zero angle vector and one layer the simulation returns
  \<open>1 / 2\<close>, and the closed-form evaluator returns \<open>1\<close>, in the multi-angle layout and
  in the standard layout alike.
\<close>

theorem weighted_edge_divergence:
  "preprocessing (single_edge 2) None = Inr (cuv_2, neighbours_2, basis_bin_2, None)
   \<and> run_ma_qaoa_simulation [0, 0, 0] 1 cuv_2 neighbours_2 basis_bin_2 None = Inr (1 / 2)
   \<and> fst (run_ma_qaoa_analytical_p1 [0, 0, 0] (single_edge 2) None) = Inr 1
   \<and> run_qaoa_simulation [0, 0] 1 cuv_2 neighbours_2 basis_bin_2 None = Inr (1 / 2)
   \<and> fst (run_qaoa_analytical_p1 [0, 0] (single_edge 2) None) = Inr 1"
proof -
  have sim: "run_ma_qaoa_simulation [0, 0, 0] 1 cuv_2 neighbours_2 basis_bin_2 None = Inr (1 / 2)"
    by (rule simulation_zero_angles) simp_all
  have s: "shape1 neighbours_2 = Inr 2" by (simp add: shape1_def neighbours_2_def)
  have c: "convert_angles_qaoa_to_multi_angle [0, 0] (length cuv_2) 2 = [0, 0, 0]"
    by (simp add: cuv_2_def eval_nat_numeral)
  have sim2: "run_qaoa_simulation [0, 0] 1 cuv_2 neighbours_2 basis_bin_2 None = Inr (1 / 2)"
    unfolding run_qaoa_simulation_def by (simp only: s c sim Let_def sum.case)
  have c2: "convert_angles_qaoa_to_multi_angle [0, 0] (length (edges (single_edge 2)))
              (length (nodes (single_edge 2))) = [0, 0, 0]"
    by (simp add: single_edge_def eval_nat_numeral)
  have an: "fst (run_ma_qaoa_analytical_p1 [0, 0, 0] (single_edge 2) None) = Inr 1"
    by (simp add: single_edge_value)
  have an2: "fst (run_qaoa_analytical_p1 [0, 0] (single_edge 2) None) = Inr 1"
    unfolding run_qaoa_analytical_p1_def by (simp only: c2 an Let_def)
  from preprocessing_single_edge [of 2] sim an sim2 an2 show ?thesis by blast
qed

end
